theory Spec2Isabelle
  imports Main "HOL-Library.Monad_Syntax"
begin

section \<open>Data model of the chess engine\<close>

text \<open>
  The engine (\<^verbatim>\<open>chess-engine.ts\<close>) is embedded function by function. A result of type
  \<open>'a option\<close> is the result of a JavaScript call that may throw: \<open>None\<close> is the thrown
  \<^verbatim>\<open>TypeError\<close> of reading or writing a property of \<^verbatim>\<open>undefined\<close> (a row index outside the
  board). Numbers are \<open>int\<close>: every number the engine computes is a small integer.
  \<^verbatim>\<open>null\<close> and \<^verbatim>\<open>undefined\<close> squares are both the empty square \<open>None\<close>; the engine only
  tests squares for truthiness.
\<close>

datatype PieceType = Pawn | Knight | Bishop | Rook | Queen | King

datatype PieceColor = White | Black

record Piece =
  ptype :: PieceType
  color :: PieceColor

type_synonym Square = "Piece option"

type_synonym Board = "Square list list"

record Position =
  row :: int
  col :: int

datatype CastleSide = Kingside | Queenside

record Move =
  from_pos :: Position
  to_pos :: Position
  piece :: Piece
  captured :: "Piece option"
  promotion :: "PieceType option"
  castling :: "CastleSide option"
  enPassant :: bool

record SideRights =
  ks :: bool
  qs :: bool

record CastlingRights =
  cw :: SideRights
  cb :: SideRights

datatype Status = Active | Checkmate | Stalemate | Draw | Resigned

record GameState =
  board :: Board
  turn :: PieceColor
  castlingRights :: CastlingRights
  enPassantTarget :: "Position option"
  halfMoveClock :: int
  fullMoveNumber :: int
  moveHistory :: "Move list"
  status :: Status
  winner :: "PieceColor option"

text \<open>\<^verbatim>\<open>castling[color]\<close> and the assignment \<^verbatim>\<open>castling[color] = v\<close>.\<close>

definition rightsOf :: "CastlingRights \<Rightarrow> PieceColor \<Rightarrow> SideRights" where
  "rightsOf cr c = (case c of White \<Rightarrow> cw cr | Black \<Rightarrow> cb cr)"

definition setRights :: "CastlingRights \<Rightarrow> PieceColor \<Rightarrow> SideRights \<Rightarrow> CastlingRights" where
  "setRights cr c v = (case c of White \<Rightarrow> cr\<lparr>cw := v\<rparr> | Black \<Rightarrow> cr\<lparr>cb := v\<rparr>)"

definition opponent :: "PieceColor \<Rightarrow> PieceColor" where
  "opponent c = (if c = White then Black else White)"

subsection \<open>Array access as JavaScript does it\<close>

text \<open>
  \<^verbatim>\<open>xs[i]\<close> is \<^verbatim>\<open>undefined\<close> outside the indices of \<open>xs\<close>. \<^verbatim>\<open>board[r][c]\<close> throws when
  \<^verbatim>\<open>board[r]\<close> is \<^verbatim>\<open>undefined\<close> and is an empty square when only \<open>c\<close> is outside the row.
  An assignment \<^verbatim>\<open>board[r][c] = v\<close> throws in the same case; with \<open>c\<close> outside the row
  JavaScript would grow the row or add a non-index property, which leaves the 8x8 data
  model: that run is \<open>None\<close> here as well.
\<close>

definition jsIndex :: "'a list \<Rightarrow> int \<Rightarrow> 'a option" where
  "jsIndex xs i = (if 0 \<le> i \<and> i < int (length xs) then Some (xs ! nat i) else None)"

definition sqAt :: "Board \<Rightarrow> int \<Rightarrow> int \<Rightarrow> Square option" where
  "sqAt b r c =
     (case jsIndex b r of
        None \<Rightarrow> None
      | Some rw \<Rightarrow> Some (case jsIndex rw c of None \<Rightarrow> None | Some s \<Rightarrow> s))"

definition setSq :: "Board \<Rightarrow> int \<Rightarrow> int \<Rightarrow> Square \<Rightarrow> Board option" where
  "setSq b r c v =
     (case jsIndex b r of
        None \<Rightarrow> None
      | Some rw \<Rightarrow>
          if 0 \<le> c \<and> c < int (length rw) then Some (b[nat r := rw[nat c := v]]) else None)"

text \<open>Loops that collect, filter or search with an early return, in the source's order.\<close>

fun concatM :: "('a \<Rightarrow> 'b list option) \<Rightarrow> 'a list \<Rightarrow> 'b list option" where
  "concatM f [] = Some []"
| "concatM f (x # xs) = do { ys \<leftarrow> f x; zs \<leftarrow> concatM f xs; Some (ys @ zs) }"

fun filterM :: "('a \<Rightarrow> bool option) \<Rightarrow> 'a list \<Rightarrow> 'a list option" where
  "filterM f [] = Some []"
| "filterM f (x # xs) =
     do { keep \<leftarrow> f x; zs \<leftarrow> filterM f xs; Some (if keep then x # zs else zs) }"

fun anyM :: "('a \<Rightarrow> bool option) \<Rightarrow> 'a list \<Rightarrow> bool option" where
  "anyM f [] = Some False"
| "anyM f (x # xs) = do { hit \<leftarrow> f x; if hit then Some True else anyM f xs }"

subsection \<open>Initial position\<close>

definition backRow :: "PieceType list" where
  "backRow = [Rook, Knight, Bishop, Queen, King, Bishop, Knight, Rook]"

definition createInitialBoard :: Board where
  "createInitialBoard =
     fold (\<lambda>c b.
        b[0 := (b ! 0)[c := Some \<lparr>ptype = backRow ! c, color = Black\<rparr>],
          1 := (b ! 1)[c := Some \<lparr>ptype = Pawn, color = Black\<rparr>],
          6 := (b ! 6)[c := Some \<lparr>ptype = Pawn, color = White\<rparr>],
          7 := (b ! 7)[c := Some \<lparr>ptype = backRow ! c, color = White\<rparr>]])
       [0 ..< 8] (replicate 8 (replicate 8 None))"

definition createInitialState :: GameState where
  "createInitialState =
     \<lparr>board = createInitialBoard, turn = White,
      castlingRights = \<lparr>cw = \<lparr>ks = True, qs = True\<rparr>, cb = \<lparr>ks = True, qs = True\<rparr>\<rparr>,
      enPassantTarget = None, halfMoveClock = 0, fullMoveNumber = 1,
      moveHistory = [], status = Active, winner = None\<rparr>"

definition inBounds :: "int \<Rightarrow> int \<Rightarrow> bool" where
  "inBounds r c = (r \<ge> 0 \<and> r < 8 \<and> c \<ge> 0 \<and> c < 8)"

definition cloneBoard :: "Board \<Rightarrow> Board" where
  "cloneBoard b = map (map (\<lambda>sq. case sq of Some p \<Rightarrow> Some p | None \<Rightarrow> None)) b"

subsection \<open>Check detection\<close>

definition isPiece :: "Square \<Rightarrow> PieceType \<Rightarrow> PieceColor \<Rightarrow> bool" where
  "isPiece sq t c = (case sq of None \<Rightarrow> False | Some p \<Rightarrow> ptype p = t \<and> color p = c)"

text \<open>The squares of the double loop \<^verbatim>\<open>for r in 0..7, for c in 0..7\<close>, in its order.\<close>

definition allSquares :: "Position list" where
  "allSquares = concat (map (\<lambda>r. map (\<lambda>c. \<lparr>row = r, col = c\<rparr>) [0 .. 7]) [0 .. 7])"

fun findKingIn :: "Board \<Rightarrow> PieceColor \<Rightarrow> Position list \<Rightarrow> Position option" where
  "findKingIn b c [] = Some \<lparr>row = - 1, col = - 1\<rparr>"
| "findKingIn b c (p # ps) =
     do { sq \<leftarrow> sqAt b (row p) (col p);
          if isPiece sq King c then Some p else findKingIn b c ps }"

definition findKing :: "Board \<Rightarrow> PieceColor \<Rightarrow> Position option" where
  "findKing b c = findKingIn b c allSquares"

definition knightOffsets :: "(int \<times> int) list" where
  "knightOffsets = [(- 2, - 1), (- 2, 1), (- 1, - 2), (- 1, 2), (1, - 2), (1, 2), (2, - 1), (2, 1)]"

text \<open>The pairs of \<^verbatim>\<open>for dr in -1..1, for dc in -1..1\<close> with \<open>(0, 0)\<close> skipped.\<close>

definition kingOffsets :: "(int \<times> int) list" where
  "kingOffsets =
     filter (\<lambda>(dr, dc). \<not> (dr = 0 \<and> dc = 0))
       (concat (map (\<lambda>dr. map (\<lambda>dc. (dr, dc)) [- 1 .. 1]) [- 1 .. 1]))"

definition rookDirs :: "(int \<times> int) list" where
  "rookDirs = [(- 1, 0), (1, 0), (0, - 1), (0, 1)]"

definition bishopDirs :: "(int \<times> int) list" where
  "bishopDirs = [(- 1, - 1), (- 1, 1), (1, - 1), (1, 1)]"

text \<open>One probe \<^verbatim>\<open>inBounds(r, c) && board[r][c]?.type === t && board[r][c]?.color === byColor\<close>.\<close>

definition probe :: "Board \<Rightarrow> PieceType \<Rightarrow> PieceColor \<Rightarrow> int \<Rightarrow> int \<Rightarrow> bool option" where
  "probe b t byColor r c =
     (if inBounds r c then do { sq \<leftarrow> sqAt b r c; Some (isPiece sq t byColor) } else Some False)"

text \<open>
  The measure of the ray loops: the distance to the edge the ray walks towards. The
  source's direction tables never hold \<open>(0, 0)\<close>, where its \<^verbatim>\<open>while\<close> would not leave an
  empty square; the guard \<open>dr \<noteq> 0 \<or> dc \<noteq> 0\<close> of the two ray functions stands for that.
\<close>

definition rayMeasure :: "int \<Rightarrow> int \<Rightarrow> int \<Rightarrow> int \<Rightarrow> nat" where
  "rayMeasure r c dr dc =
     (if \<not> inBounds r c then 0
      else if dr > 0 then nat (8 - r) else if dr < 0 then nat (r + 1)
      else if dc > 0 then nat (8 - c) else nat (c + 1))"

function rayAttack ::
  "Board \<Rightarrow> PieceColor \<Rightarrow> PieceType list \<Rightarrow> int \<Rightarrow> int \<Rightarrow> int \<Rightarrow> int \<Rightarrow> bool option" where
  "rayAttack b byColor types r c dr dc =
     (if inBounds r c \<and> (dr \<noteq> 0 \<or> dc \<noteq> 0) then
        do { sq \<leftarrow> sqAt b r c;
             case sq of
               Some p \<Rightarrow> Some (color p = byColor \<and> ptype p \<in> set types)
             | None \<Rightarrow> rayAttack b byColor types (r + dr) (c + dc) dr dc }
      else Some False)"
  by pat_completeness auto
termination
  by (relation "measure (\<lambda>(b, byColor, types, r, c, dr, dc). rayMeasure r c dr dc)")
    (auto simp: rayMeasure_def inBounds_def)

definition isSquareAttacked :: "Board \<Rightarrow> Position \<Rightarrow> PieceColor \<Rightarrow> bool option" where
  "isSquareAttacked b pos byColor =
     (let pawnDir = (if byColor = White then 1 else - 1) in
      do { pawnHit \<leftarrow> anyM (\<lambda>dc. probe b Pawn byColor (row pos + pawnDir) (col pos + dc)) [- 1, 1];
           if pawnHit then Some True
           else do {
             knightHit \<leftarrow> anyM (\<lambda>(dr, dc). probe b Knight byColor (row pos + dr) (col pos + dc))
                            knightOffsets;
             if knightHit then Some True
             else do {
               kingHit \<leftarrow> anyM (\<lambda>(dr, dc). probe b King byColor (row pos + dr) (col pos + dc))
                            kingOffsets;
               if kingHit then Some True
               else anyM (\<lambda>((dr, dc), types).
                            rayAttack b byColor types (row pos + dr) (col pos + dc) dr dc)
                      (map (\<lambda>d. (d, [Rook, Queen])) rookDirs @
                       map (\<lambda>d. (d, [Bishop, Queen])) bishopDirs) } } })"

definition isInCheck :: "Board \<Rightarrow> PieceColor \<Rightarrow> bool option" where
  "isInCheck b c = do { king \<leftarrow> findKing b c; isSquareAttacked b king (opponent c) }"

subsection \<open>Pseudo-legal moves\<close>

text \<open>
  The closure \<^verbatim>\<open>addMove(to, extra)\<close>: the pushed move is
  \<^verbatim>\<open>{ from, to, piece, captured: board[to.row][to.col] || undefined, ...extra }\<close>; \<open>extra\<close>
  is the update the spread performs.
\<close>

definition baseMove :: "Position \<Rightarrow> Piece \<Rightarrow> Position \<Rightarrow> Piece option \<Rightarrow> Move" where
  "baseMove frm pc to cap =
     \<lparr>from_pos = frm, to_pos = to, piece = pc, captured = cap,
      promotion = None, castling = None, enPassant = False\<rparr>"

definition addMove ::
  "Board \<Rightarrow> Position \<Rightarrow> Piece \<Rightarrow> Position \<Rightarrow> (Move \<Rightarrow> Move) \<Rightarrow> Move list option" where
  "addMove b frm pc to extra =
     do { cap \<leftarrow> sqAt b (row to) (col to); Some [extra (baseMove frm pc to cap)] }"

definition promoTypes :: "PieceType list" where
  "promoTypes = [Queen, Rook, Bishop, Knight]"

definition addPromotions ::
  "Board \<Rightarrow> Position \<Rightarrow> Piece \<Rightarrow> Position \<Rightarrow> Move list option" where
  "addPromotions b frm pc to =
     concatM (\<lambda>pr. addMove b frm pc to (\<lambda>m. m\<lparr>promotion := Some pr\<rparr>)) promoTypes"

text \<open>The constants \<^verbatim>\<open>dir\<close>, \<^verbatim>\<open>startRow\<close> and \<^verbatim>\<open>promoRow\<close> of the pawn branch.\<close>

definition pawnDir :: "Piece \<Rightarrow> int" where
  "pawnDir pc = (if color pc = White then - 1 else 1)"

definition pawnStartRow :: "Piece \<Rightarrow> int" where
  "pawnStartRow pc = (if color pc = White then 6 else 1)"

definition pawnPromoRow :: "Piece \<Rightarrow> int" where
  "pawnPromoRow pc = (if color pc = White then 0 else 7)"

definition pawnForward :: "Board \<Rightarrow> Position \<Rightarrow> Piece \<Rightarrow> Move list option" where
  "pawnForward b frm pc =
     (let dir = pawnDir pc in
      if inBounds (row frm + dir) (col frm) then
        do { ahead \<leftarrow> sqAt b (row frm + dir) (col frm);
             if ahead = None then
               do { one \<leftarrow> (if row frm + dir = pawnPromoRow pc
                            then addPromotions b frm pc \<lparr>row = row frm + dir, col = col frm\<rparr>
                            else addMove b frm pc \<lparr>row = row frm + dir, col = col frm\<rparr> id);
                    two \<leftarrow> (if row frm = pawnStartRow pc then
                              do { ahead2 \<leftarrow> sqAt b (row frm + 2 * dir) (col frm);
                                   if ahead2 = None
                                   then addMove b frm pc
                                          \<lparr>row = row frm + 2 * dir, col = col frm\<rparr> id
                                   else Some [] }
                            else Some []);
                    Some (one @ two) }
             else Some [] }
      else Some [])"

definition pawnCapture ::
  "Board \<Rightarrow> Position option \<Rightarrow> Position \<Rightarrow> Piece \<Rightarrow> int \<Rightarrow> Move list option" where
  "pawnCapture b ep frm pc dc =
     (let nr = row frm + pawnDir pc; nc = col frm + dc in
      if \<not> inBounds nr nc then Some []
      else
        do { target \<leftarrow> sqAt b nr nc;
             caps \<leftarrow> (case target of
                        None \<Rightarrow> Some []
                      | Some p \<Rightarrow>
                          if color p \<noteq> color pc then
                            (if nr = pawnPromoRow pc
                             then addPromotions b frm pc \<lparr>row = nr, col = nc\<rparr>
                             else addMove b frm pc \<lparr>row = nr, col = nc\<rparr> id)
                          else Some []);
             eps \<leftarrow> (case ep of
                       None \<Rightarrow> Some []
                     | Some e \<Rightarrow>
                         if row e = nr \<and> col e = nc then
                           do { beside \<leftarrow> sqAt b (row frm) nc;
                                addMove b frm pc \<lparr>row = nr, col = nc\<rparr>
                                  (\<lambda>m. m\<lparr>enPassant := True, captured := beside\<rparr>) }
                         else Some []);
             Some (caps @ eps) })"

definition pawnMoves ::
  "Board \<Rightarrow> Position option \<Rightarrow> Position \<Rightarrow> Piece \<Rightarrow> Move list option" where
  "pawnMoves b ep frm pc =
     do { fwd \<leftarrow> pawnForward b frm pc;
          caps \<leftarrow> concatM (pawnCapture b ep frm pc) [- 1, 1];
          Some (fwd @ caps) }"

text \<open>
  A step of a knight or king:
  \<^verbatim>\<open>if (inBounds(r, c) && (!board[r][c] || board[r][c].color !== piece.color)) addMove(...)\<close>.
\<close>

definition stepMove ::
  "Board \<Rightarrow> Position \<Rightarrow> Piece \<Rightarrow> int \<times> int \<Rightarrow> Move list option" where
  "stepMove b frm pc d =
     (let r = row frm + fst d; c = col frm + snd d
      in if inBounds r c then
           do { sq \<leftarrow> sqAt b r c;
                if (case sq of None \<Rightarrow> True | Some p \<Rightarrow> color p \<noteq> color pc)
                then addMove b frm pc \<lparr>row = r, col = c\<rparr> id
                else Some [] }
         else Some [])"

definition knightMoves :: "Board \<Rightarrow> Position \<Rightarrow> Piece \<Rightarrow> Move list option" where
  "knightMoves b frm pc = concatM (stepMove b frm pc) knightOffsets"

text \<open>
  The castling candidates. \<^verbatim>\<open>&&\<close> evaluates left to right and stops at the first false
  operand, so a later read happens only if the earlier tests passed.
\<close>

definition emptyAt :: "Board \<Rightarrow> int \<Rightarrow> int \<Rightarrow> bool option" where
  "emptyAt b r c = do { sq \<leftarrow> sqAt b r c; Some (sq = None) }"

definition notAttacked :: "Board \<Rightarrow> int \<Rightarrow> int \<Rightarrow> PieceColor \<Rightarrow> bool option" where
  "notAttacked b r c enemy =
     do { a \<leftarrow> isSquareAttacked b \<lparr>row = r, col = c\<rparr> enemy; Some (\<not> a) }"

fun allM :: "bool option list \<Rightarrow> bool option" where
  "allM [] = Some True"
| "allM (t # ts) = do { ok \<leftarrow> t; if ok then allM ts else Some False }"

definition castleMoves ::
  "Board \<Rightarrow> SideRights \<Rightarrow> PieceColor \<Rightarrow> Position \<Rightarrow> Piece \<Rightarrow> Move list option" where
  "castleMoves b cr trn frm pc =
     (let rw = row frm; enemy = opponent trn in
      do { okK \<leftarrow> allM [Some (ks cr), emptyAt b rw 5, emptyAt b rw 6,
                         notAttacked b rw 4 enemy, notAttacked b rw 5 enemy,
                         notAttacked b rw 6 enemy];
           kingside \<leftarrow> (if okK
                         then addMove b frm pc \<lparr>row = rw, col = 6\<rparr>
                                (\<lambda>m. m\<lparr>castling := Some Kingside\<rparr>)
                         else Some []);
           okQ \<leftarrow> allM [Some (qs cr), emptyAt b rw 3, emptyAt b rw 2, emptyAt b rw 1,
                         notAttacked b rw 4 enemy, notAttacked b rw 3 enemy,
                         notAttacked b rw 2 enemy];
           queenside \<leftarrow> (if okQ
                          then addMove b frm pc \<lparr>row = rw, col = 2\<rparr>
                                 (\<lambda>m. m\<lparr>castling := Some Queenside\<rparr>)
                          else Some []);
           Some (kingside @ queenside) })"

definition kingMoves ::
  "Board \<Rightarrow> SideRights \<Rightarrow> PieceColor \<Rightarrow> Position \<Rightarrow> Piece \<Rightarrow> Move list option" where
  "kingMoves b cr trn frm pc =
     do { steps \<leftarrow> concatM (stepMove b frm pc) kingOffsets;
          castles \<leftarrow> castleMoves b cr trn frm pc;
          Some (steps @ castles) }"

function rayMoves ::
  "Board \<Rightarrow> Position \<Rightarrow> Piece \<Rightarrow> int \<Rightarrow> int \<Rightarrow> int \<Rightarrow> int \<Rightarrow> Move list option" where
  "rayMoves b frm pc r c dr dc =
     (if inBounds r c \<and> (dr \<noteq> 0 \<or> dc \<noteq> 0) then
        do { sq \<leftarrow> sqAt b r c;
             case sq of
               Some p \<Rightarrow>
                 if color p \<noteq> color pc then addMove b frm pc \<lparr>row = r, col = c\<rparr> id
                 else Some []
             | None \<Rightarrow>
                 do { m \<leftarrow> addMove b frm pc \<lparr>row = r, col = c\<rparr> id;
                      ms \<leftarrow> rayMoves b frm pc (r + dr) (c + dc) dr dc;
                      Some (m @ ms) } }
      else Some [])"
  by pat_completeness auto
termination
  by (relation "measure (\<lambda>(b, frm, pc, r, c, dr, dc). rayMeasure r c dr dc)")
    (auto simp: rayMeasure_def inBounds_def)

definition slidingMoves :: "Board \<Rightarrow> Position \<Rightarrow> Piece \<Rightarrow> Move list option" where
  "slidingMoves b frm pc =
     (let dirs = (if ptype pc = Rook then rookDirs
                  else if ptype pc = Bishop then bishopDirs
                  else rookDirs @ bishopDirs)
      in concatM (\<lambda>(dr, dc). rayMoves b frm pc (row frm + dr) (col frm + dc) dr dc) dirs)"

definition getRawMoves :: "GameState \<Rightarrow> Position \<Rightarrow> Move list option" where
  "getRawMoves s frm =
     do { sq \<leftarrow> sqAt (board s) (row frm) (col frm);
          case sq of
            None \<Rightarrow> Some []
          | Some pc \<Rightarrow>
              if color pc \<noteq> turn s then Some []
              else if ptype pc = Pawn then pawnMoves (board s) (enPassantTarget s) frm pc
              else if ptype pc = Knight then knightMoves (board s) frm pc
              else if ptype pc = King
                then kingMoves (board s) (rightsOf (castlingRights s) (turn s)) (turn s) frm pc
              else slidingMoves (board s) frm pc }"

subsection \<open>Applying a move\<close>

definition applyMoveToBoard :: "Board \<Rightarrow> Move \<Rightarrow> Board option" where
  "applyMoveToBoard b m =
     (let newBoard = cloneBoard b; frm = from_pos m; to = to_pos m in
      do { moved \<leftarrow> (case promotion m of
                       Some pr \<Rightarrow> Some (Some \<lparr>ptype = pr, color = color (piece m)\<rparr>)
                     | None \<Rightarrow> sqAt newBoard (row frm) (col frm));
           b1 \<leftarrow> setSq newBoard (row to) (col to) moved;
           b2 \<leftarrow> setSq b1 (row frm) (col frm) None;
           b3 \<leftarrow> (if enPassant m then setSq b2 (row frm) (col to) None else Some b2);
           b4 \<leftarrow> (if castling m = Some Kingside then
                     do { rook \<leftarrow> sqAt b3 (row frm) 7;
                          b' \<leftarrow> setSq b3 (row frm) 5 rook;
                          setSq b' (row frm) 7 None }
                   else Some b3);
           (if castling m = Some Queenside then
              do { rook \<leftarrow> sqAt b4 (row frm) 0;
                   b' \<leftarrow> setSq b4 (row frm) 3 rook;
                   setSq b' (row frm) 0 None }
            else Some b4) })"

definition leavesKingSafe :: "GameState \<Rightarrow> Move \<Rightarrow> bool option" where
  "leavesKingSafe s m =
     do { newBoard \<leftarrow> applyMoveToBoard (board s) m;
          chk \<leftarrow> isInCheck newBoard (turn s);
          Some (\<not> chk) }"

definition getLegalMoves :: "GameState \<Rightarrow> Position \<Rightarrow> Move list option" where
  "getLegalMoves s frm = do { raw \<leftarrow> getRawMoves s frm; filterM (leavesKingSafe s) raw }"

definition getAllLegalMoves :: "GameState \<Rightarrow> Move list option" where
  "getAllLegalMoves s =
     concatM (\<lambda>p. do { sq \<leftarrow> sqAt (board s) (row p) (col p);
                       if (case sq of None \<Rightarrow> False | Some pc \<Rightarrow> color pc = turn s)
                       then getLegalMoves s p else Some [] })
       allSquares"

text \<open>The castling rights after a move: rights are only ever cleared.\<close>

definition newCastling :: "CastlingRights \<Rightarrow> Move \<Rightarrow> CastlingRights" where
  "newCastling cr m =
     (let c1 = (if ptype (piece m) = King
                then setRights cr (color (piece m)) \<lparr>ks = False, qs = False\<rparr> else cr);
          c2 = (if ptype (piece m) = Rook then
                  (let a = (if col (from_pos m) = 0
                            then setRights c1 (color (piece m))
                                   ((rightsOf c1 (color (piece m)))\<lparr>qs := False\<rparr>)
                            else c1)
                   in if col (from_pos m) = 7
                      then setRights a (color (piece m))
                             ((rightsOf a (color (piece m)))\<lparr>ks := False\<rparr>)
                      else a)
                else c1)
      in if (case captured m of None \<Rightarrow> False | Some p \<Rightarrow> ptype p = Rook) then
           (let r = row (to_pos m); c = col (to_pos m);
                d1 = (if r = 0 \<and> c = 0 then c2\<lparr>cb := (cb c2)\<lparr>qs := False\<rparr>\<rparr> else c2);
                d2 = (if r = 0 \<and> c = 7 then d1\<lparr>cb := (cb d1)\<lparr>ks := False\<rparr>\<rparr> else d1);
                d3 = (if r = 7 \<and> c = 0 then d2\<lparr>cw := (cw d2)\<lparr>qs := False\<rparr>\<rparr> else d2)
            in if r = 7 \<and> c = 7 then d3\<lparr>cw := (cw d3)\<lparr>ks := False\<rparr>\<rparr> else d3)
         else c2)"

definition newEnPassant :: "Move \<Rightarrow> Position option" where
  "newEnPassant m =
     (if ptype (piece m) = Pawn \<and> \<bar>row (to_pos m) - row (from_pos m)\<bar> = 2
      then Some \<lparr>row = (row (from_pos m) + row (to_pos m)) div 2, col = col (from_pos m)\<rparr>
      else None)"

definition makeMove :: "GameState \<Rightarrow> Move \<Rightarrow> GameState option" where
  "makeMove s m =
     do { newBoard \<leftarrow> applyMoveToBoard (board s) m;
          let nextTurn = (if turn s = White then Black else White);
          let newState =
            \<lparr>board = newBoard, turn = nextTurn,
             castlingRights = newCastling (castlingRights s) m,
             enPassantTarget = newEnPassant m,
             halfMoveClock =
               (if ptype (piece m) = Pawn \<or> captured m \<noteq> None then 0 else halfMoveClock s + 1),
             fullMoveNumber =
               (if turn s = Black then fullMoveNumber s + 1 else fullMoveNumber s),
             moveHistory = moveHistory s @ [m], status = Active, winner = None\<rparr>;
          legalMoves \<leftarrow> getAllLegalMoves newState;
          if length legalMoves = 0 then
            do { chk \<leftarrow> isInCheck newBoard nextTurn;
                 if chk then Some (newState\<lparr>status := Checkmate, winner := Some (turn s)\<rparr>)
                 else Some (newState\<lparr>status := Stalemate\<rparr>) }
          else if halfMoveClock newState \<ge> 100 then Some (newState\<lparr>status := Draw\<rparr>)
          else Some newState }"

text \<open>A game played from a state: each choice is an origin square and a move drawn from
  \<open>getLegalMoves\<close> of that origin, applied with \<open>makeMove\<close>.\<close>

fun playLegal :: "GameState \<Rightarrow> (Position \<times> Move) list \<Rightarrow> GameState option" where
  "playLegal s [] = Some s"
| "playLegal s ((origin, m) # rest) =
     do { legal \<leftarrow> getLegalMoves s origin;
          if m \<in> set legal then do { s' \<leftarrow> makeMove s m; playLegal s' rest } else None }"

fun makeMoves :: "GameState \<Rightarrow> Move list \<Rightarrow> GameState option" where
  "makeMoves s [] = Some s"
| "makeMoves s (m # ms) = do { s' \<leftarrow> makeMove s m; makeMoves s' ms }"

section \<open>The stored game record and the client (\<^verbatim>\<open>Game.tsx\<close>)\<close>

text \<open>
  An entry of the stored move list: origin, destination, promotion code (\<^verbatim>\<open>null\<close> is
  \<open>None\<close>) and, when the server wrote it, the submission time. Coordinates are \<open>int\<close>.
  In the game record a time stamp is the instant (\<^verbatim>\<open>Date.now()\<close>, in milliseconds) that the
  source formats as an ISO string.
\<close>

record MoveData =
  md_from :: Position
  md_to :: Position
  md_promotion :: "string option"
  md_timestamp :: "int option"

record GameRow =
  game_id :: string
  white_player :: string
  black_player :: string
  moves :: "MoveData list"
  result :: "string option"
  time_control :: string
  time_white :: int
  time_black :: int
  elo_change_white :: int
  elo_change_black :: int
  row_status :: string
  started_at :: int
  ended_at :: "int option"
  last_move_at :: "int option"

text \<open>The string a \<^verbatim>\<open>PieceType\<close> is in the source.\<close>

definition typeCode :: "PieceType \<Rightarrow> string" where
  "typeCode t = (case t of Pawn \<Rightarrow> ''p'' | Knight \<Rightarrow> ''n'' | Bishop \<Rightarrow> ''b''
                 | Rook \<Rightarrow> ''r'' | Queen \<Rightarrow> ''q'' | King \<Rightarrow> ''k'')"

text \<open>Truthiness of an optional string: \<^verbatim>\<open>null\<close>, \<^verbatim>\<open>undefined\<close> and \<^verbatim>\<open>""\<close> are falsy.\<close>

definition truthy :: "string option \<Rightarrow> bool" where
  "truthy v = (case v of None \<Rightarrow> False | Some str \<Rightarrow> str \<noteq> [])"

text \<open>The wire form of a move, as \<^verbatim>\<open>handleMove\<close> builds it.\<close>

definition moveData :: "Move \<Rightarrow> MoveData" where
  "moveData m =
     \<lparr>md_from = \<lparr>row = row (from_pos m), col = col (from_pos m)\<rparr>,
      md_to = \<lparr>row = row (to_pos m), col = col (to_pos m)\<rparr>,
      md_promotion = map_option typeCode (promotion m), md_timestamp = None\<rparr>"

text \<open>The predicate of \<^verbatim>\<open>legal.find\<close> in \<^verbatim>\<open>replayMoves\<close>.\<close>

definition matchesData :: "MoveData \<Rightarrow> Move \<Rightarrow> bool" where
  "matchesData m l =
     (row (to_pos l) = row (md_to m) \<and> col (to_pos l) = col (md_to m) \<and>
      (\<not> truthy (md_promotion m) \<or> map_option typeCode (promotion l) = md_promotion m))"

fun replayFrom :: "GameState \<Rightarrow> MoveData list \<Rightarrow> GameState option" where
  "replayFrom s [] = Some s"
| "replayFrom s (m # ms) =
     do { legal \<leftarrow> getLegalMoves s \<lparr>row = row (md_from m), col = col (md_from m)\<rparr>;
          case find (matchesData m) legal of
            Some lm \<Rightarrow> do { s' \<leftarrow> makeMove s lm; replayFrom s' ms }
          | None \<Rightarrow> replayFrom s ms }"

definition replayMoves :: "MoveData list \<Rightarrow> GameState option" where
  "replayMoves movesData = replayFrom createInitialState movesData"

definition applyRowToState :: "GameRow \<Rightarrow> GameState option" where
  "applyRowToState rw =
     do { st \<leftarrow> replayMoves (moves rw);
          if row_status rw = ''completed'' then
            Some (st\<lparr>status := (if result rw = Some ''draw'' then Draw else Checkmate),
                     winner := (if result rw = Some ''white'' then Some White
                                else if result rw = Some ''black'' then Some Black else None)\<rparr>)
          else Some st }"

text \<open>
  The state of the \<^verbatim>\<open>Game\<close> component that reconciliation reads and writes: the React state
  \<^verbatim>\<open>gameRow\<close>, \<^verbatim>\<open>gameState\<close>, \<^verbatim>\<open>timeWhite\<close>, \<^verbatim>\<open>timeBlack\<close> and the two refs. \<open>syncRefs\<close> is
  the effect on \<^verbatim>\<open>[gameRow]\<close> that copies the row into the refs after a render.
  \<open>syncFromRow\<close> only reads the refs: a record handled before that effect has run is
  compared with the refs as they were. When the replay throws, the state updates made
  before it stand and \<^verbatim>\<open>setGameState\<close> is not reached.
\<close>

record Client =
  gameRow :: "GameRow option"
  gameState :: GameState
  timeWhite :: int
  timeBlack :: int
  gameRowRef :: "GameRow option"
  moveCountRef :: nat

definition syncFromRow :: "GameRow \<Rightarrow> Client \<Rightarrow> Client" where
  "syncFromRow data cl =
     (let incomingMoveCount = length (moves data); currentMoveCount = moveCountRef cl in
      if incomingMoveCount < currentMoveCount then cl
      else if incomingMoveCount = currentMoveCount \<and>
              Some (row_status data) = map_option row_status (gameRowRef cl) then cl
      else cl\<lparr>gameRow := Some data, timeWhite := time_white data,
               timeBlack := time_black data,
               gameState := (case applyRowToState data of
                               Some st \<Rightarrow> st | None \<Rightarrow> gameState cl)\<rparr>)"

definition syncRefs :: "Client \<Rightarrow> Client" where
  "syncRefs cl =
     cl\<lparr>gameRowRef := gameRow cl,
        moveCountRef := (case gameRow cl of None \<Rightarrow> 0 | Some rw \<Rightarrow> length (moves rw))\<rparr>"

section \<open>The submit handler (\<^verbatim>\<open>validate-move/index.ts\<close>)\<close>

record RateEntry =
  count :: int
  resetAt :: int

type_synonym RateMap = "string \<rightharpoonup> RateEntry"

definition RATE_LIMIT :: int where
  "RATE_LIMIT = 30"

definition RATE_WINDOW :: int where
  "RATE_WINDOW = 60000"

text \<open>\<^verbatim>\<open>checkRateLimit\<close>, with \<^verbatim>\<open>Date.now()\<close> as the argument \<open>now\<close> and the map returned.\<close>

definition checkRateLimit :: "int \<Rightarrow> string \<Rightarrow> RateMap \<Rightarrow> bool \<times> RateMap" where
  "checkRateLimit now userId m =
     (case m userId of
        None \<Rightarrow> (True, m(userId \<mapsto> \<lparr>count = 1, resetAt = now + RATE_WINDOW\<rparr>))
      | Some entry \<Rightarrow>
          if now > resetAt entry
          then (True, m(userId \<mapsto> \<lparr>count = 1, resetAt = now + RATE_WINDOW\<rparr>))
          else if count entry \<ge> RATE_LIMIT then (False, m)
          else (True, m(userId \<mapsto> entry\<lparr>count := count entry + 1\<rparr>)))"

text \<open>
  The JSON of a request. A coordinate that is missing or not a number is \<open>None\<close>; a
  number is an \<open>int\<close>.
\<close>

record ReqPos =
  prow :: "int option"
  pcol :: "int option"

record ReqMove =
  rfrom :: "ReqPos option"
  rto :: "ReqPos option"
  rpromotion :: "string option"

record GameEnd =
  ge_result :: string
  eloChangeWhite :: "int option"
  eloChangeBlack :: "int option"

record Body =
  gameId :: string
  move :: "ReqMove option"
  timeRemaining :: "int option"
  gameEnd :: "GameEnd option"

text \<open>
  A request with what the collaborators answer to it: the user the identity provider
  resolves the token to, the clock, whether the store reports an error on the update
  of the game, and for which players it reports one on the read or the write of the
  profile. A missing \<^verbatim>\<open>gameId\<close> is the empty string (both are falsy); a body that is
  not JSON is \<open>None\<close>.
\<close>

record Request =
  isOptions :: bool
  authHeader :: "string option"
  tokenUser :: "string option"
  body :: "Body option"
  now :: int
  updateFails :: bool
  profileStoreFails :: "string \<Rightarrow> bool"

record Profile =
  elo_rating :: int
  games_played :: int
  wins :: int
  losses :: int
  draws :: int

record Server =
  rateLimitMap :: RateMap
  games :: "string \<rightharpoonup> GameRow"
  profiles :: "string \<rightharpoonup> Profile"

datatype Response = Preflight | Success nat | Failure nat string

definition coordOk :: "int option \<Rightarrow> bool" where
  "coordOk v = (case v of None \<Rightarrow> False | Some n \<Rightarrow> \<not> (n < 0 \<or> n > 7))"

definition validateMoveStructure :: "ReqMove option \<Rightarrow> bool" where
  "validateMoveStructure mv =
     (case mv of
        None \<Rightarrow> False
      | Some m \<Rightarrow>
          (case (rfrom m, rto m) of
             (Some f, Some t) \<Rightarrow>
               if prow f = None \<or> pcol f = None then False
               else if prow t = None \<or> pcol t = None then False
               else if \<not> coordOk (prow f) \<or> \<not> coordOk (pcol f) then False
               else if \<not> coordOk (prow t) \<or> \<not> coordOk (pcol t) then False
               else if truthy (rpromotion m) \<and>
                       rpromotion m \<notin> Some ` {''q'', ''r'', ''b'', ''n''} then False
               else True
           | _ \<Rightarrow> False))"

text \<open>What the handler has in hand once every check has passed.\<close>

record Admission =
  ad_user :: string
  ad_body :: Body
  ad_move :: ReqMove
  ad_game :: GameRow

text \<open>
  The checks of the handler in their order, each an early return. The rate limiter runs
  after authentication and before the body is read; its map is returned as it stands at
  the return.
\<close>

definition admit :: "Server \<Rightarrow> Request \<Rightarrow> (Response + Admission) \<times> RateMap" where
  "admit st rq =
     (if isOptions rq then (Inl Preflight, rateLimitMap st)
      else if authHeader rq = None then (Inl (Failure 401 ''Unauthorized''), rateLimitMap st)
      else
        (case tokenUser rq of
           None \<Rightarrow> (Inl (Failure 401 ''Invalid token''), rateLimitMap st)
         | Some uid \<Rightarrow>
             (case checkRateLimit (now rq) uid (rateLimitMap st) of
                (False, rl) \<Rightarrow> (Inl (Failure 429 ''Rate limited''), rl)
              | (True, rl) \<Rightarrow>
                  (case body rq of
                     None \<Rightarrow> (Inl (Failure 500 ''Internal error''), rl)
                   | Some bd \<Rightarrow>
                       if gameId bd = [] \<or> move bd = None
                       then (Inl (Failure 400 ''Missing gameId or move''), rl)
                       else if \<not> validateMoveStructure (move bd)
                       then (Inl (Failure 400 ''Invalid move structure''), rl)
                       else
                         (case games st (gameId bd) of
                            None \<Rightarrow> (Inl (Failure 404 ''Game not found''), rl)
                          | Some game \<Rightarrow>
                              if white_player game \<noteq> uid \<and> black_player game \<noteq> uid
                              then (Inl (Failure 403 ''Not your game''), rl)
                              else if (length (moves game) mod 2 = 0) \<noteq> (white_player game = uid)
                              then (Inl (Failure 400 ''Not your turn''), rl)
                              else if row_status game \<noteq> ''active''
                              then (Inl (Failure 400 ''Game is not active''), rl)
                              else (Inr \<lparr>ad_user = uid, ad_body = bd,
                                         ad_move = the (move bd), ad_game = game\<rparr>, rl))))))"

text \<open>The entry appended to the stored move list.\<close>

definition storedMove :: "ReqMove \<Rightarrow> int \<Rightarrow> MoveData" where
  "storedMove mv t =
     \<lparr>md_from = \<lparr>row = the (prow (the (rfrom mv))), col = the (pcol (the (rfrom mv)))\<rparr>,
      md_to = \<lparr>row = the (prow (the (rto mv))), col = the (pcol (the (rto mv)))\<rparr>,
      md_promotion = (if truthy (rpromotion mv) then rpromotion mv else None),
      md_timestamp = Some t\<rparr>"

text \<open>
  \<^verbatim>\<open>x || 0\<close> on an optional number, and the record the handler writes: the fetched game with
  the fields of \<^verbatim>\<open>updateData\<close> replaced. \<^verbatim>\<open>Math.floor\<close> is the identity on a whole number of
  seconds.
\<close>

definition orZero :: "int option \<Rightarrow> int" where
  "orZero v = (case v of None \<Rightarrow> 0 | Some n \<Rightarrow> n)"

definition updateData :: "Admission \<Rightarrow> int \<Rightarrow> GameRow" where
  "updateData a t =
     (let game = ad_game a; bd = ad_body a;
          isWhitePlayer = (white_player game = ad_user a);
          g1 = game\<lparr>moves := moves game @ [storedMove (ad_move a) t], last_move_at := Some t\<rparr>;
          g2 = (case timeRemaining bd of
                  None \<Rightarrow> g1
                | Some tr \<Rightarrow> if isWhitePlayer then g1\<lparr>time_white := max 0 tr\<rparr>
                             else g1\<lparr>time_black := max 0 tr\<rparr>)
      in case gameEnd bd of
           None \<Rightarrow> g2
         | Some ge \<Rightarrow> g2\<lparr>result := Some (ge_result ge), row_status := ''completed'',
                         ended_at := Some t,
                         elo_change_white := orZero (eloChangeWhite ge),
                         elo_change_black := orZero (eloChangeBlack ge)\<rparr>)"

text \<open>
  The columns of \<^verbatim>\<open>profiles\<close> are \<^verbatim>\<open>INTEGER\<close>, 32 bits wide: the store rejects a row with a
  value outside that range.
\<close>

definition int4 :: "int \<Rightarrow> bool" where
  "int4 n = (- 2147483648 \<le> n \<and> n \<le> 2147483647)"

definition profileFits :: "Profile \<Rightarrow> bool" where
  "profileFits p =
     (int4 (elo_rating p) \<and> int4 (games_played p) \<and> int4 (wins p) \<and> int4 (losses p) \<and>
      int4 (draws p))"

text \<open>The row that one round of the loop over \<^verbatim>\<open>[game.white_player, game.black_player]\<close>
  sends to the store for the profile \<open>prof\<close> of \<open>playerId\<close>.\<close>

definition newProfile :: "GameRow \<Rightarrow> GameEnd \<Rightarrow> string \<Rightarrow> Profile \<Rightarrow> Profile" where
  "newProfile game ge playerId prof =
     (let isW = (playerId = white_player game);
          eloChange = (if isW then orZero (eloChangeWhite ge) else orZero (eloChangeBlack ge));
          won = ((ge_result ge = ''white'' \<and> isW) \<or> (ge_result ge = ''black'' \<and> \<not> isW));
          drew = (ge_result ge = ''draw'')
      in \<lparr>elo_rating = elo_rating prof + eloChange,
          games_played = games_played prof + 1,
          wins = wins prof + (if won then 1 else 0),
          losses = losses prof + (if \<not> won \<and> \<not> drew then 1 else 0),
          draws = draws prof + (if drew then 1 else 0)\<rparr>)"

text \<open>
  One round of that loop. The profile is read; when the read gives none (no such row, or
  an error of the store) nothing is written. The answer of the store to the write is not
  looked at: a write the store rejects, by an error of its own or because a value does not
  fit its column, leaves the profile as it was and the loop goes on.
\<close>

definition updateProfile ::
  "(string \<Rightarrow> bool) \<Rightarrow> GameRow \<Rightarrow> GameEnd \<Rightarrow> string \<Rightarrow> (string \<rightharpoonup> Profile) \<Rightarrow>
   (string \<rightharpoonup> Profile)" where
  "updateProfile rejects game ge playerId ps =
     (if rejects playerId then ps
      else case ps playerId of
             None \<Rightarrow> ps
           | Some prof \<Rightarrow>
               if profileFits (newProfile game ge playerId prof)
               then ps(playerId \<mapsto> newProfile game ge playerId prof)
               else ps)"

definition handler :: "Server \<Rightarrow> Request \<Rightarrow> Response \<times> Server" where
  "handler st rq =
     (case admit st rq of
        (Inl resp, rl) \<Rightarrow> (resp, st\<lparr>rateLimitMap := rl\<rparr>)
      | (Inr a, rl) \<Rightarrow>
          if updateFails rq
          then (Failure 500 ''Failed to update game'', st\<lparr>rateLimitMap := rl\<rparr>)
          else
            (let game = ad_game a;
                 newGame = updateData a (now rq);
                 ps = (case gameEnd (ad_body a) of
                         None \<Rightarrow> profiles st
                       | Some ge \<Rightarrow>
                           fold (updateProfile (profileStoreFails rq) game ge)
                             [white_player game, black_player game] (profiles st))
             in (Success (length (moves newGame)),
                 st\<lparr>rateLimitMap := rl,
                    games := (games st)(gameId (ad_body a) \<mapsto> newGame),
                    profiles := ps\<rparr>)))"

text \<open>The calls of one participant the limiter lets through, in a list of timed calls.\<close>

fun runLimiter :: "RateMap \<Rightarrow> (int \<times> string) list \<Rightarrow> bool list" where
  "runLimiter m [] = []"
| "runLimiter m ((t, u) # cs) =
     (case checkRateLimit t u m of (ok, m') \<Rightarrow> ok # runLimiter m' cs)"

definition acceptedIn ::
  "RateMap \<Rightarrow> (int \<times> string) list \<Rightarrow> string \<Rightarrow> int \<Rightarrow> int \<Rightarrow> nat" where
  "acceptedIn m cs uid lo hi =
     length (filter (\<lambda>((t, u), ok). ok \<and> u = uid \<and> lo \<le> t \<and> t < hi)
               (zip cs (runLimiter m cs)))"

section \<open>The shape of generated moves\<close>

text \<open>
  What a generated move looks like, by the branch of \<open>getRawMoves\<close> that pushed it: a plain
  move, a promotion, an en-passant capture or a castling move.
\<close>

definition plainAt :: "Board \<Rightarrow> Position \<Rightarrow> Piece \<Rightarrow> Move \<Rightarrow> bool" where
  "plainAt b frm pc m =
     (sqAt b (row (to_pos m)) (col (to_pos m)) = Some (captured m) \<and>
      m = baseMove frm pc (to_pos m) (captured m))"

definition promoAt :: "Board \<Rightarrow> Position \<Rightarrow> Piece \<Rightarrow> Move \<Rightarrow> bool" where
  "promoAt b frm pc m =
     (sqAt b (row (to_pos m)) (col (to_pos m)) = Some (captured m) \<and>
      (\<exists>pr \<in> set promoTypes. m = (baseMove frm pc (to_pos m) (captured m))\<lparr>promotion := Some pr\<rparr>))"

definition epAt :: "Board \<Rightarrow> Position \<Rightarrow> Piece \<Rightarrow> Move \<Rightarrow> bool" where
  "epAt b frm pc m =
     (sqAt b (row frm) (col (to_pos m)) = Some (captured m) \<and>
      m = (baseMove frm pc (to_pos m) (captured m))\<lparr>enPassant := True\<rparr>)"

definition castleAt :: "Board \<Rightarrow> Position \<Rightarrow> Piece \<Rightarrow> CastleSide \<Rightarrow> Move \<Rightarrow> bool" where
  "castleAt b frm pc side m =
     (sqAt b (row frm) (if side = Kingside then 6 else 2) = Some (captured m) \<and>
      m = (baseMove frm pc \<lparr>row = row frm, col = (if side = Kingside then 6 else 2)\<rparr>
             (captured m))\<lparr>castling := Some side\<rparr>)"

definition pawnShape :: "Board \<Rightarrow> Position option \<Rightarrow> Position \<Rightarrow> Piece \<Rightarrow> Move \<Rightarrow> bool" where
  "pawnShape b ep frm pc m =
     (row (to_pos m) = row frm + pawnDir pc \<and>
        (plainAt b frm pc m \<and> row (to_pos m) \<noteq> pawnPromoRow pc \<and>
           (col (to_pos m) \<noteq> col frm \<longrightarrow> captured m \<noteq> None)
         \<or> promoAt b frm pc m \<and> row (to_pos m) = pawnPromoRow pc \<and>
           (col (to_pos m) \<noteq> col frm \<longrightarrow> captured m \<noteq> None)
         \<or> epAt b frm pc m \<and> ep = Some (to_pos m) \<and> col (to_pos m) \<noteq> col frm)
      \<or> plainAt b frm pc m \<and> row (to_pos m) = row frm + 2 * pawnDir pc \<and>
          col (to_pos m) = col frm \<and> sqAt b (row frm + pawnDir pc) (col frm) = Some None)"

definition kingShape :: "Board \<Rightarrow> SideRights \<Rightarrow> Position \<Rightarrow> Piece \<Rightarrow> Move \<Rightarrow> bool" where
  "kingShape b cr frm pc m =
     (plainAt b frm pc m \<and> \<bar>col (to_pos m) - col frm\<bar> \<le> 1
      \<or> castleAt b frm pc Kingside m \<and> ks cr
      \<or> castleAt b frm pc Queenside m \<and> qs cr)"

definition rawShape :: "GameState \<Rightarrow> Position \<Rightarrow> Piece \<Rightarrow> Move \<Rightarrow> bool" where
  "rawShape s frm pc m =
     (if ptype pc = Pawn then pawnShape (board s) (enPassantTarget s) frm pc m
      else if ptype pc = King
        then kingShape (board s) (rightsOf (castlingRights s) (turn s)) frm pc m
      else plainAt (board s) frm pc m)"

text \<open>
  Boards without a king of a colour, and the squares that the probes from the sentinel
  position \<open>(-1, -1)\<close> of \<open>findKing\<close> reach.
\<close>

definition noKing :: "Board \<Rightarrow> PieceColor \<Rightarrow> bool" where
  "noKing b c =
     list_all (\<lambda>p. case sqAt b (row p) (col p) of
                      Some sq \<Rightarrow> \<not> isPiece sq King c | None \<Rightarrow> True) allSquares"

definition occupiedBy :: "Board \<Rightarrow> int \<Rightarrow> int \<Rightarrow> PieceType list \<Rightarrow> PieceColor \<Rightarrow> bool" where
  "occupiedBy b r c types byColor =
     (case sqAt b r c of
        Some (Some p) \<Rightarrow> color p = byColor \<and> ptype p \<in> set types
      | _ \<Rightarrow> False)"

definition sentinelSafe :: "Board \<Rightarrow> PieceColor \<Rightarrow> bool" where
  "sentinelSafe b byColor =
     (\<not> occupiedBy b 0 0 [Pawn, King] byColor \<and>
      \<not> occupiedBy b 0 1 [Knight] byColor \<and>
      \<not> occupiedBy b 1 0 [Knight] byColor \<and>
      list_all (\<lambda>i. \<not> occupiedBy b i i [Bishop, Queen] byColor) [0 .. 7])"

text \<open>Castling rights compared right by right: every right of \<open>a\<close> is a right of \<open>b\<close>.\<close>

definition rightsLe :: "CastlingRights \<Rightarrow> CastlingRights \<Rightarrow> bool" where
  "rightsLe a b =
     ((ks (cw a) \<longrightarrow> ks (cw b)) \<and> (qs (cw a) \<longrightarrow> qs (cw b)) \<and>
      (ks (cb a) \<longrightarrow> ks (cb b)) \<and> (qs (cb a) \<longrightarrow> qs (cb b)))"

text \<open>
  A short game in which the white king's rook leaves its home square and returns:
  h2-h4, a7-a5, Rh1-h3, a5-a4, Rh3-h1.
\<close>

definition rookTour :: "Move list" where
  "rookTour =
     [baseMove \<lparr>row = 6, col = 7\<rparr> \<lparr>ptype = Pawn, color = White\<rparr> \<lparr>row = 4, col = 7\<rparr> None,
      baseMove \<lparr>row = 1, col = 0\<rparr> \<lparr>ptype = Pawn, color = Black\<rparr> \<lparr>row = 3, col = 0\<rparr> None,
      baseMove \<lparr>row = 7, col = 7\<rparr> \<lparr>ptype = Rook, color = White\<rparr> \<lparr>row = 5, col = 7\<rparr> None,
      baseMove \<lparr>row = 3, col = 0\<rparr> \<lparr>ptype = Pawn, color = Black\<rparr> \<lparr>row = 4, col = 0\<rparr> None,
      baseMove \<lparr>row = 5, col = 7\<rparr> \<lparr>ptype = Rook, color = White\<rparr> \<lparr>row = 7, col = 7\<rparr> None]"

section \<open>Concrete servers and requests\<close>

text \<open>A call at time \<open>t\<close> opens a new window for a participant: there is no entry, or the
  entry has expired.\<close>

definition opensWindow :: "int \<Rightarrow> string \<Rightarrow> RateMap \<Rightarrow> bool" where
  "opensWindow t uid m = (case m uid of None \<Rightarrow> True | Some entry \<Rightarrow> t > resetAt entry)"

text \<open>A small server for the concrete runs: one active game of alice (White) and bob
  (Black) with no move made, and requests of alice at time 1000.\<close>

definition demoGame :: GameRow where
  "demoGame =
     \<lparr>game_id = ''g'', white_player = ''alice'', black_player = ''bob'', moves = [],
      result = None, time_control = ''rapid'', time_white = 600, time_black = 600,
      elo_change_white = 0, elo_change_black = 0, row_status = ''active'',
      started_at = 0, ended_at = None, last_move_at = None\<rparr>"

definition demoProfile :: Profile where
  "demoProfile = \<lparr>elo_rating = 800, games_played = 0, wins = 0, losses = 0, draws = 0\<rparr>"

definition demoServer :: Server where
  "demoServer =
     \<lparr>rateLimitMap = Map.empty, games = [''g'' \<mapsto> demoGame],
      profiles = [''alice'' \<mapsto> demoProfile, ''bob'' \<mapsto> demoProfile]\<rparr>"

text \<open>The same server after alice has used her 30 calls in the window that ends at 60000.\<close>

definition limitedServer :: Server where
  "limitedServer = demoServer\<lparr>rateLimitMap := [''alice'' \<mapsto> \<lparr>count = 30, resetAt = 60000\<rparr>]\<rparr>"

definition demoRequest :: "ReqMove \<Rightarrow> GameEnd option \<Rightarrow> Request" where
  "demoRequest mv ge =
     \<lparr>isOptions = False, authHeader = Some ''Bearer t'', tokenUser = Some ''alice'',
      body = Some \<lparr>gameId = ''g'', move = Some mv, timeRemaining = Some 590, gameEnd = ge\<rparr>,
      now = 1000, updateFails = False, profileStoreFails = (\<lambda>_. False)\<rparr>"

text \<open>Descriptors: a8 to h1 (well-formed, not a chess move), e2 to a row outside the board
  (malformed), and the placeholder a8 to a8 that the client sends with a game-end claim.\<close>

definition cornerMove :: ReqMove where
  "cornerMove =
     \<lparr>rfrom = Some \<lparr>prow = Some 0, pcol = Some 0\<rparr>,
      rto = Some \<lparr>prow = Some 7, pcol = Some 7\<rparr>, rpromotion = None\<rparr>"









section \<open>Concrete clients and records\<close>

text \<open>A delivered record is stale for a client when \<open>syncFromRow\<close> skips it: it has fewer
  moves than the client knows of, or as many and the status the client knows of.\<close>

definition stale :: "GameRow \<Rightarrow> Client \<Rightarrow> bool" where
  "stale data cl =
     (length (moves data) < moveCountRef cl \<or>
      length (moves data) = moveCountRef cl \<and>
        Some (row_status data) = map_option row_status (gameRowRef cl))"




section \<open>Invariants of play\<close>

text \<open>
  Two facts that hold in every state reached by legal play and make a stored move name one
  legal move only: the en-passant target is an empty square, and a side that still has a
  castling right has its king on the e-file.
\<close>

definition epEmpty :: "GameState \<Rightarrow> bool" where
  "epEmpty s =
     (case enPassantTarget s of
        None \<Rightarrow> True
      | Some e \<Rightarrow> sqAt (board s) (row e) (col e) = Some None)"

definition kingsHome :: "GameState \<Rightarrow> bool" where
  "kingsHome s =
     (\<forall>r c p. sqAt (board s) r c = Some (Some p) \<and> ptype p = King \<and>
        (ks (rightsOf (castlingRights s) (color p)) \<or> qs (rightsOf (castlingRights s) (color p)))
        \<longrightarrow> c = 4)"

text \<open>The content of the destination square after a move: the promoted piece, or the piece
  read from the origin.\<close>

definition movedSq :: "Board \<Rightarrow> Move \<Rightarrow> Square option" where
  "movedSq b m =
     (case promotion m of
        Some pr \<Rightarrow> Some (Some \<lparr>ptype = pr, color = color (piece m)\<rparr>)
      | None \<Rightarrow> sqAt b (row (from_pos m)) (col (from_pos m)))"

text \<open>A game played by the rules: e4 e5, Nf3 Nc6, Bc4 Bc5, O-O, each move with its origin.\<close>

definition italianGame :: "(Position \<times> Move) list" where
  "italianGame =
     map (\<lambda>m. (from_pos m, m))
       [baseMove \<lparr>row = 6, col = 4\<rparr> \<lparr>ptype = Pawn, color = White\<rparr> \<lparr>row = 4, col = 4\<rparr> None,
        baseMove \<lparr>row = 1, col = 4\<rparr> \<lparr>ptype = Pawn, color = Black\<rparr> \<lparr>row = 3, col = 4\<rparr> None,
        baseMove \<lparr>row = 7, col = 6\<rparr> \<lparr>ptype = Knight, color = White\<rparr> \<lparr>row = 5, col = 5\<rparr> None,
        baseMove \<lparr>row = 0, col = 1\<rparr> \<lparr>ptype = Knight, color = Black\<rparr> \<lparr>row = 2, col = 2\<rparr> None,
        baseMove \<lparr>row = 7, col = 5\<rparr> \<lparr>ptype = Bishop, color = White\<rparr> \<lparr>row = 4, col = 2\<rparr> None,
        baseMove \<lparr>row = 0, col = 5\<rparr> \<lparr>ptype = Bishop, color = Black\<rparr> \<lparr>row = 3, col = 2\<rparr> None,
        (baseMove \<lparr>row = 7, col = 4\<rparr> \<lparr>ptype = King, color = White\<rparr> \<lparr>row = 7, col = 6\<rparr> None)
          \<lparr>castling := Some Kingside\<rparr>]"

section \<open>Basic facts\<close>

declare rayMoves.simps [simp del] rayAttack.simps [simp del]

lemma cloneBoard_id: "cloneBoard b = b"
proof -
  have "(\<lambda>sq::Square. case sq of Some p \<Rightarrow> Some p | None \<Rightarrow> None) = id"
    by (auto split: option.splits)
  then show ?thesis by (simp add: cloneBoard_def)
qed

lemma jsIndex_update:
  "jsIndex (xs[n := v]) i = (if 0 \<le> i \<and> nat i = n \<and> n < length xs then Some v else jsIndex xs i)"
  by (cases "nat i = n") (auto simp: jsIndex_def)

lemma sqAt_setSq:
  "setSq b r c v = Some b' \<Longrightarrow> sqAt b' r' c' = (if r' = r \<and> c' = c then Some v else sqAt b r' c')"
proof -
  assume a: "setSq b r c v = Some b'"
  then obtain rw where rw: "jsIndex b r = Some rw" and c: "0 \<le> c" "c < int (length rw)"
    and b': "b' = b[nat r := rw[nat c := v]]"
    by (auto simp: setSq_def split: option.splits if_splits)
  from rw have r: "0 \<le> r" "nat r < length b" "rw = b ! nat r"
    by (auto simp: jsIndex_def split: if_splits)
  show ?thesis
  proof (cases "r' = r")
    case True
    then show ?thesis using r c rw b'
      by (auto simp: sqAt_def jsIndex_update)
  next
    case False
    then have "jsIndex b' r' = jsIndex b r'" using r b'
      by (auto simp: jsIndex_update) 
    then show ?thesis using False by (simp add: sqAt_def)
  qed
qed

lemma filterM_set:
  "filterM f xs = Some ys \<Longrightarrow> y \<in> set ys \<Longrightarrow> y \<in> set xs \<and> f y = Some True"
proof (induction xs arbitrary: ys)
  case Nil then show ?case by simp
next
  case (Cons x xs)
  then show ?case by (auto simp: bind_eq_Some_conv split: if_splits)
qed

lemma concatM_set:
  "concatM f xs = Some ys \<Longrightarrow> y \<in> set ys \<Longrightarrow> \<exists>x \<in> set xs. \<exists>zs. f x = Some zs \<and> y \<in> set zs"
proof (induction xs arbitrary: ys)
  case Nil then show ?case by simp
next
  case (Cons x xs)
  then show ?case by (fastforce simp: bind_eq_Some_conv)
qed

lemma addMove_Some:
  "addMove b frm pc to extra = Some ms \<longleftrightarrow>
     (\<exists>cap. sqAt b (row to) (col to) = Some cap \<and> ms = [extra (baseMove frm pc to cap)])"
  by (auto simp: addMove_def bind_eq_Some_conv)

lemma addMove_plain:
  "addMove b frm pc to id = Some ms \<Longrightarrow> m \<in> set ms \<Longrightarrow> plainAt b frm pc m \<and> to_pos m = to"
  by (auto simp: addMove_Some plainAt_def baseMove_def)

lemma addPromotions_promo:
  "addPromotions b frm pc to = Some ms \<Longrightarrow> m \<in> set ms \<Longrightarrow> promoAt b frm pc m \<and> to_pos m = to"
  unfolding addPromotions_def
  by (drule (1) concatM_set) (auto simp: addMove_Some promoAt_def baseMove_def)

lemma leavesKingSafe_True:
  "leavesKingSafe s m = Some True \<Longrightarrow>
     \<exists>nb. applyMoveToBoard (board s) m = Some nb \<and> isInCheck nb (turn s) = Some False"
  by (auto simp: leavesKingSafe_def bind_eq_Some_conv)

lemma pawnDir_cases: "pawnDir pc = 1 \<or> pawnDir pc = - 1"
  by (simp add: pawnDir_def)

lemma pawnForward_shape:
  assumes "pawnForward b frm pc = Some ms" "m \<in> set ms"
  shows "col (to_pos m) = col frm \<and> captured m = None \<and>
         (plainAt b frm pc m \<and> row (to_pos m) \<noteq> pawnPromoRow pc \<and> row (to_pos m) = row frm + pawnDir pc
          \<or> promoAt b frm pc m \<and> row (to_pos m) = pawnPromoRow pc \<and> row (to_pos m) = row frm + pawnDir pc
          \<or> plainAt b frm pc m \<and> row (to_pos m) = row frm + 2 * pawnDir pc \<and>
            sqAt b (row frm + pawnDir pc) (col frm) = Some None)"
proof -
  from assms obtain one two where
    ahead: "sqAt b (row frm + pawnDir pc) (col frm) = Some None"
    and one: "(if row frm + pawnDir pc = pawnPromoRow pc
                then addPromotions b frm pc \<lparr>row = row frm + pawnDir pc, col = col frm\<rparr>
                else addMove b frm pc \<lparr>row = row frm + pawnDir pc, col = col frm\<rparr> id) = Some one"
    and two: "(if row frm = pawnStartRow pc then
                do { ahead2 \<leftarrow> sqAt b (row frm + 2 * pawnDir pc) (col frm);
                     if ahead2 = None
                     then addMove b frm pc \<lparr>row = row frm + 2 * pawnDir pc, col = col frm\<rparr> id
                     else Some [] }
               else Some []) = Some two"
    and ms: "ms = one @ two"
    by (auto simp: pawnForward_def Let_def bind_eq_Some_conv split: if_splits)
  from assms(2) ms consider "m \<in> set one" | "m \<in> set two" by auto
  then show ?thesis
  proof cases
    case 1
    show ?thesis
    proof (cases "row frm + pawnDir pc = pawnPromoRow pc")
      case True
      with one 1 have "promoAt b frm pc m \<and> to_pos m = \<lparr>row = row frm + pawnDir pc, col = col frm\<rparr>"
        by (auto dest: addPromotions_promo)
      then show ?thesis using True ahead by (auto simp: promoAt_def)
    next
      case False
      with one 1 have "plainAt b frm pc m \<and> to_pos m = \<lparr>row = row frm + pawnDir pc, col = col frm\<rparr>"
        by (auto dest: addMove_plain)
      then show ?thesis using False ahead by (auto simp: plainAt_def)
    qed
  next
    case 2
    with two have "plainAt b frm pc m \<and> to_pos m = \<lparr>row = row frm + 2 * pawnDir pc, col = col frm\<rparr>
        \<and> sqAt b (row frm + 2 * pawnDir pc) (col frm) = Some None"
      by (auto simp: bind_eq_Some_conv split: if_splits dest: addMove_plain)
    then show ?thesis using ahead by (auto simp: plainAt_def)
  qed
qed


lemma pawnCapture_shape:
  assumes "pawnCapture b ep frm pc dc = Some ms" "m \<in> set ms" "dc \<noteq> 0"
  shows "pawnShape b ep frm pc m"
proof -
  let ?nr = "row frm + pawnDir pc" and ?nc = "col frm + dc"
  from assms obtain target caps eps where
    target: "sqAt b ?nr ?nc = Some target"
    and caps: "(case target of
                  None \<Rightarrow> Some []
                | Some p \<Rightarrow>
                    if color p \<noteq> color pc then
                      (if ?nr = pawnPromoRow pc
                       then addPromotions b frm pc \<lparr>row = ?nr, col = ?nc\<rparr>
                       else addMove b frm pc \<lparr>row = ?nr, col = ?nc\<rparr> id)
                    else Some []) = Some caps"
    and eps: "(case ep of
                 None \<Rightarrow> Some []
               | Some e \<Rightarrow>
                   if row e = ?nr \<and> col e = ?nc then
                     do { beside \<leftarrow> sqAt b (row frm) ?nc;
                          addMove b frm pc \<lparr>row = ?nr, col = ?nc\<rparr>
                            (\<lambda>m. m\<lparr>enPassant := True, captured := beside\<rparr>) }
                   else Some []) = Some eps"
    and ms: "ms = caps @ eps"
    by (auto simp: pawnCapture_def Let_def bind_eq_Some_conv split: if_splits)
  from assms(2) ms consider "m \<in> set caps" | "m \<in> set eps" by auto
  then show ?thesis
  proof cases
    case 1
    with caps obtain p where p: "target = Some p" by (cases target) auto
    show ?thesis
    proof (cases "?nr = pawnPromoRow pc")
      case True
      with caps 1 p have "promoAt b frm pc m \<and> to_pos m = \<lparr>row = ?nr, col = ?nc\<rparr>"
        by (auto dest: addPromotions_promo split: if_splits)
      moreover from this have "sqAt b ?nr ?nc = Some (captured m)"
        by (clarsimp simp: promoAt_def)
      with target p have "captured m = Some p" by simp
      ultimately show ?thesis using True assms(3) by (simp add: pawnShape_def)
    next
      case False
      with caps 1 p have "plainAt b frm pc m \<and> to_pos m = \<lparr>row = ?nr, col = ?nc\<rparr>"
        by (auto dest: addMove_plain split: if_splits)
      moreover from this have "sqAt b ?nr ?nc = Some (captured m)"
        by (clarsimp simp: plainAt_def)
      with target p have "captured m = Some p" by simp
      ultimately show ?thesis using False assms(3) by (simp add: pawnShape_def)
    qed
  next
    case 2
    with eps obtain e where e: "ep = Some e" "row e = ?nr" "col e = ?nc"
      by (cases ep) (auto split: if_splits)
    with eps 2 obtain beside cap where "sqAt b (row frm) ?nc = Some beside"
      and m: "m = (baseMove frm pc \<lparr>row = ?nr, col = ?nc\<rparr> cap)\<lparr>enPassant := True, captured := beside\<rparr>"
      by (auto simp: bind_eq_Some_conv addMove_Some)
    moreover have "e = \<lparr>row = ?nr, col = ?nc\<rparr>" using e by simp
    ultimately show ?thesis using e assms(3) by (simp add: epAt_def pawnShape_def baseMove_def)
  qed
qed

lemma pawnMoves_shape:
  assumes "pawnMoves b ep frm pc = Some ms" "m \<in> set ms"
  shows "pawnShape b ep frm pc m"
proof -
  from assms obtain fwd caps where fwd: "pawnForward b frm pc = Some fwd"
    and caps: "concatM (pawnCapture b ep frm pc) [- 1, 1] = Some caps" and ms: "ms = fwd @ caps"
    by (auto simp: pawnMoves_def bind_eq_Some_conv)
  from assms(2) ms consider "m \<in> set fwd" | "m \<in> set caps" by auto
  then show ?thesis
  proof cases
    case 1
    from pawnForward_shape[OF fwd 1] show ?thesis by (auto simp: pawnShape_def)
  next
    case 2
    from concatM_set[OF caps 2] obtain dc zs where "dc \<in> {- 1, 1}"
      "pawnCapture b ep frm pc dc = Some zs" "m \<in> set zs" by auto
    then show ?thesis by (auto intro: pawnCapture_shape)
  qed
qed

lemma stepMove_shape:
  assumes "stepMove b frm pc d = Some ms" "m \<in> set ms"
  shows "plainAt b frm pc m \<and> row (to_pos m) = row frm + fst d \<and> col (to_pos m) = col frm + snd d"
  using assms
  by (auto simp: stepMove_def Let_def bind_eq_Some_conv split: if_splits dest!: addMove_plain)

lemma rayMoves_shape:
  "rayMoves b frm pc r c dr dc = Some ms \<Longrightarrow> m \<in> set ms \<Longrightarrow> plainAt b frm pc m"
proof (induction b frm pc r c dr dc arbitrary: ms rule: rayMoves.induct)
  case (1 b frm pc r c dr dc)
  show ?case
  proof (cases "inBounds r c \<and> (dr \<noteq> 0 \<or> dc \<noteq> 0)")
    case False
    with "1.prems" show ?thesis by (subst (asm) rayMoves.simps) (auto split: if_splits)
  next
    case True
    with "1.prems"(1) obtain sq where sq: "sqAt b r c = Some sq"
      and rest: "(case sq of
               Some p \<Rightarrow>
                 if color p \<noteq> color pc then addMove b frm pc \<lparr>row = r, col = c\<rparr> id
                 else Some []
             | None \<Rightarrow>
                 do { m \<leftarrow> addMove b frm pc \<lparr>row = r, col = c\<rparr> id;
                      ms \<leftarrow> rayMoves b frm pc (r + dr) (c + dc) dr dc;
                      Some (m @ ms) }) = Some ms"
      by (subst (asm) rayMoves.simps) (simp add: bind_eq_Some_conv, blast)
    show ?thesis
    proof (cases sq)
      case (Some p)
      with rest "1.prems"(2) show ?thesis by (auto split: if_splits dest: addMove_plain)
    next
      case None
      with rest obtain m1 ms1 where m1: "addMove b frm pc \<lparr>row = r, col = c\<rparr> id = Some m1"
        and ms1: "rayMoves b frm pc (r + dr) (c + dc) dr dc = Some ms1" and ms: "ms = m1 @ ms1"
        by (auto simp: bind_eq_Some_conv)
      from "1.prems"(2) ms consider "m \<in> set m1" | "m \<in> set ms1" by auto
      then show ?thesis
      proof cases
        case 1
        with m1 show ?thesis by (auto dest: addMove_plain)
      next
        case 2
        from "1.IH"[OF True sq None m1 ms1 2] show ?thesis .
      qed
    qed
  qed
qed

lemma slidingMoves_shape:
  "slidingMoves b frm pc = Some ms \<Longrightarrow> m \<in> set ms \<Longrightarrow> plainAt b frm pc m"
  unfolding slidingMoves_def Let_def
  by (drule (1) concatM_set) (auto dest: rayMoves_shape)

lemma knightMoves_shape:
  "knightMoves b frm pc = Some ms \<Longrightarrow> m \<in> set ms \<Longrightarrow> plainAt b frm pc m"
  unfolding knightMoves_def
  by (drule (1) concatM_set) (auto dest: stepMove_shape)

lemma kingOffsets_eq:
  "kingOffsets = [(- 1, - 1), (- 1, 0), (- 1, 1), (0, - 1), (0, 1), (1, - 1), (1, 0), (1, 1)]"
  by code_simp

lemma allM_head: "allM (Some x # ts) = Some True \<Longrightarrow> x"
  by (cases x) auto

lemma castleMoves_shape:
  assumes "castleMoves b cr trn frm pc = Some ms" "m \<in> set ms"
  shows "castleAt b frm pc Kingside m \<and> ks cr \<or> castleAt b frm pc Queenside m \<and> qs cr"
proof -
  from assms(1) obtain okK kingside okQ queenside where
    okK: "allM [Some (ks cr), emptyAt b (row frm) 5, emptyAt b (row frm) 6,
                         notAttacked b (row frm) 4 (opponent trn), notAttacked b (row frm) 5 (opponent trn),
                         notAttacked b (row frm) 6 (opponent trn)] = Some okK"
    and kingside: "(if okK
                         then addMove b frm pc \<lparr>row = row frm, col = 6\<rparr>
                                (\<lambda>m. m\<lparr>castling := Some Kingside\<rparr>)
                         else Some []) = Some kingside"
    and okQ: "allM [Some (qs cr), emptyAt b (row frm) 3, emptyAt b (row frm) 2, emptyAt b (row frm) 1,
                         notAttacked b (row frm) 4 (opponent trn), notAttacked b (row frm) 3 (opponent trn),
                         notAttacked b (row frm) 2 (opponent trn)] = Some okQ"
    and queenside: "(if okQ
                          then addMove b frm pc \<lparr>row = row frm, col = 2\<rparr>
                                 (\<lambda>m. m\<lparr>castling := Some Queenside\<rparr>)
                          else Some []) = Some queenside"
    and ms: "ms = kingside @ queenside"
    unfolding castleMoves_def Let_def bind_eq_Some_conv by blast
  from assms(2) ms consider "m \<in> set kingside" | "m \<in> set queenside" by auto
  then show ?thesis
  proof cases
    case 1
    with kingside have okK by (auto split: if_splits)
    with okK have "ks cr" by (auto split: if_splits)
    moreover from 1 kingside \<open>okK\<close> have "castleAt b frm pc Kingside m"
      by (auto simp: addMove_Some castleAt_def baseMove_def)
    ultimately show ?thesis by simp
  next
    case 2
    with queenside have okQ by (auto split: if_splits)
    with okQ have "qs cr" by (auto split: if_splits)
    moreover from 2 queenside \<open>okQ\<close> have "castleAt b frm pc Queenside m"
      by (auto simp: addMove_Some castleAt_def baseMove_def)
    ultimately show ?thesis by simp
  qed
qed

lemma kingMoves_shape:
  assumes "kingMoves b cr trn frm pc = Some ms" "m \<in> set ms"
  shows "kingShape b cr frm pc m"
proof -
  from assms obtain steps castles where steps: "concatM (stepMove b frm pc) kingOffsets = Some steps"
    and castles: "castleMoves b cr trn frm pc = Some castles" and ms: "ms = steps @ castles"
    by (auto simp: kingMoves_def bind_eq_Some_conv)
  from assms(2) ms consider "m \<in> set steps" | "m \<in> set castles" by auto
  then show ?thesis
  proof cases
    case 1
    from concatM_set[OF steps 1] obtain d zs where d: "d \<in> set kingOffsets"
      and "stepMove b frm pc d = Some zs" "m \<in> set zs" by auto
    then have "plainAt b frm pc m \<and> col (to_pos m) = col frm + snd d"
      by (auto dest: stepMove_shape)
    moreover from d have "\<bar>snd d\<bar> \<le> 1" by (auto simp: kingOffsets_eq)
    ultimately show ?thesis by (auto simp: kingShape_def)
  next
    case 2
    from castleMoves_shape[OF castles 2] show ?thesis by (auto simp: kingShape_def)
  qed
qed

lemma getRawMoves_shape:
  assumes "getRawMoves s frm = Some ms" "m \<in> set ms"
  shows "\<exists>pc. sqAt (board s) (row frm) (col frm) = Some (Some pc) \<and> color pc = turn s \<and>
              rawShape s frm pc m"
proof -
  from assms(1) obtain sq where sq: "sqAt (board s) (row frm) (col frm) = Some sq"
    by (auto simp: getRawMoves_def bind_eq_Some_conv)
  with assms obtain pc where pc: "sq = Some pc" by (cases sq) (auto simp: getRawMoves_def)
  with assms sq have c: "color pc = turn s" by (auto simp: getRawMoves_def split: if_splits)
  have "rawShape s frm pc m"
    using assms sq pc c
    by (auto simp: getRawMoves_def rawShape_def split: if_splits
          dest: pawnMoves_shape kingMoves_shape knightMoves_shape slidingMoves_shape)
  with sq pc c show ?thesis by simp
qed

lemma plainAt_fields:
  "plainAt b frm pc m \<Longrightarrow> from_pos m = frm \<and> piece m = pc \<and> promotion m = None \<and>
     castling m = None \<and> \<not> enPassant m"
  by (auto simp: plainAt_def baseMove_def) (metis Move.select_convs)+

lemma rawShape_fields:
  assumes "rawShape s frm pc m"
  shows "from_pos m = frm \<and> piece m = pc"
proof -
  have base: "\<And>t cap. from_pos (baseMove frm pc t cap) = frm \<and> piece (baseMove frm pc t cap) = pc"
    by (simp add: baseMove_def)
  from assms consider "plainAt (board s) frm pc m" | "promoAt (board s) frm pc m"
    | "epAt (board s) frm pc m" | side where "castleAt (board s) frm pc side m"
    by (auto simp: rawShape_def pawnShape_def kingShape_def split: if_splits)
  then show ?thesis
  proof cases
    case 1
    then have "m = baseMove frm pc (to_pos m) (captured m)" by (simp add: plainAt_def)
    then show ?thesis using base by metis
  next
    case 2
    then obtain pr where "m = (baseMove frm pc (to_pos m) (captured m))\<lparr>promotion := Some pr\<rparr>"
      by (auto simp: promoAt_def)
    then have "from_pos m = from_pos (baseMove frm pc (to_pos m) (captured m)) \<and>
       piece m = piece (baseMove frm pc (to_pos m) (captured m))"
      by (metis Move.select_convs(1,3) Move.surjective Move.update_convs(5))
    then show ?thesis using base by simp
  next
    case 3
    then have "m = (baseMove frm pc (to_pos m) (captured m))\<lparr>enPassant := True\<rparr>"
      by (simp add: epAt_def)
    then have "from_pos m = from_pos (baseMove frm pc (to_pos m) (captured m)) \<and>
       piece m = piece (baseMove frm pc (to_pos m) (captured m))"
      by (metis Move.select_convs(1,3) Move.surjective Move.update_convs(7))
    then show ?thesis using base by simp
  next
    case 4
    then show ?thesis by (simp add: castleAt_def baseMove_def) (metis Move.select_convs(1,3))
  qed
qed

lemma e2_legal:
  "getLegalMoves createInitialState \<lparr>row = 6, col = 4\<rparr> =
     Some [baseMove \<lparr>row = 6, col = 4\<rparr> \<lparr>ptype = Pawn, color = White\<rparr> \<lparr>row = 5, col = 4\<rparr> None,
           baseMove \<lparr>row = 6, col = 4\<rparr> \<lparr>ptype = Pawn, color = White\<rparr> \<lparr>row = 4, col = 4\<rparr> None]"
  by code_simp

subsection \<open>Check detection never fails on a board of eight rows\<close>

lemma sqAt_inBounds: "8 \<le> length b \<Longrightarrow> inBounds r c \<Longrightarrow> \<exists>sq. sqAt b r c = Some sq"
  by (simp add: sqAt_def jsIndex_def inBounds_def)

lemma probe_total: "8 \<le> length b \<Longrightarrow> \<exists>v. probe b t byColor r c = Some v"
proof (cases "inBounds r c")
  case True
  assume "8 \<le> length b"
  with True obtain sq where "sqAt b r c = Some sq" using sqAt_inBounds by blast
  with True show ?thesis by (simp add: probe_def)
next
  case False
  then show ?thesis by (auto simp: probe_def)
qed

lemma anyM_total: "(\<And>x. x \<in> set xs \<Longrightarrow> \<exists>v. f x = Some v) \<Longrightarrow> \<exists>v. anyM f xs = Some v"
proof (induction xs)
  case Nil then show ?case by auto
next
  case (Cons x xs)
  then obtain v where "f x = Some v" by (meson list.set_intros(1))
  moreover from Cons obtain w where "anyM f xs = Some w" by (meson list.set_intros(2))
  ultimately show ?case by auto
qed

lemma anyM_False: "(\<And>x. x \<in> set xs \<Longrightarrow> f x = Some False) \<Longrightarrow> anyM f xs = Some False"
  by (induction xs) simp_all

lemma rayAttack_total:
  "8 \<le> length b \<Longrightarrow> \<exists>v. rayAttack b byColor types r c dr dc = Some v"
proof (induction b byColor types r c dr dc rule: rayAttack.induct)
  case (1 b byColor types r c dr dc)
  show ?case
  proof (cases "inBounds r c \<and> (dr \<noteq> 0 \<or> dc \<noteq> 0)")
    case False
    then show ?thesis by (subst rayAttack.simps) auto
  next
    case True
    with 1(2) obtain sq where sq: "sqAt b r c = Some sq" using sqAt_inBounds by blast
    show ?thesis
    proof (cases sq)
      case None
      from "1.IH"[OF True sq None "1.prems"] obtain v where
        "rayAttack b byColor types (r + dr) (c + dc) dr dc = Some v" by blast
      with True sq None show ?thesis by (subst rayAttack.simps) auto
    next
      case (Some p)
      with True sq show ?thesis by (subst rayAttack.simps) auto
    qed
  qed
qed

lemma isSquareAttacked_total:
  assumes "8 \<le> length b"
  shows "\<exists>v. isSquareAttacked b pos byColor = Some v"
proof -
  obtain p where p: "anyM (\<lambda>dc. probe b Pawn byColor (row pos + (if byColor = White then 1 else - 1)) (col pos + dc)) [- 1, 1] = Some p"
    using anyM_total probe_total[OF assms] by meson
  obtain n where n: "anyM (\<lambda>(dr, dc). probe b Knight byColor (row pos + dr) (col pos + dc))
                            knightOffsets = Some n"
    using anyM_total[of knightOffsets "\<lambda>(dr, dc). probe b Knight byColor (row pos + dr) (col pos + dc)"]
      probe_total[OF assms] by (auto simp: split_def)
  obtain k where k: "anyM (\<lambda>(dr, dc). probe b King byColor (row pos + dr) (col pos + dc))
                            kingOffsets = Some k"
    using anyM_total[of kingOffsets "\<lambda>(dr, dc). probe b King byColor (row pos + dr) (col pos + dc)"]
      probe_total[OF assms] by (auto simp: split_def)
  obtain s where s: "anyM (\<lambda>((dr, dc), types).
                            rayAttack b byColor types (row pos + dr) (col pos + dc) dr dc)
                      (map (\<lambda>d. (d, [Rook, Queen])) rookDirs @
                       map (\<lambda>d. (d, [Bishop, Queen])) bishopDirs) = Some s"
    using anyM_total[of "(map (\<lambda>d. (d, [Rook, Queen])) rookDirs @
                       map (\<lambda>d. (d, [Bishop, Queen])) bishopDirs)" "\<lambda>((dr, dc), types).
                            rayAttack b byColor types (row pos + dr) (col pos + dc) dr dc"]
      rayAttack_total[OF assms] by (auto simp: split_def)
  show ?thesis unfolding isSquareAttacked_def Let_def using p n k s
    by (auto simp del: anyM.simps)
qed

lemma allSquares_inBounds: "p \<in> set allSquares \<Longrightarrow> inBounds (row p) (col p)"
proof -
  have "list_all (\<lambda>p. inBounds (row p) (col p)) allSquares" by code_simp
  then show "p \<in> set allSquares \<Longrightarrow> inBounds (row p) (col p)" by (simp add: list_all_iff)
qed

lemma findKingIn_total:
  "8 \<le> length b \<Longrightarrow> (\<And>p. p \<in> set ps \<Longrightarrow> inBounds (row p) (col p)) \<Longrightarrow>
     \<exists>k. findKingIn b c ps = Some k"
proof (induction ps)
  case Nil then show ?case by simp
next
  case (Cons p ps)
  then obtain sq where "sqAt b (row p) (col p) = Some sq"
    using sqAt_inBounds by (meson list.set_intros(1))
  moreover from Cons obtain k where "findKingIn b c ps = Some k" by (meson list.set_intros(2))
  ultimately show ?case by simp
qed

lemma findKingIn_none:
  "8 \<le> length b \<Longrightarrow> (\<And>p. p \<in> set ps \<Longrightarrow> inBounds (row p) (col p)) \<Longrightarrow>
   list_all (\<lambda>p. case sqAt b (row p) (col p) of
                      Some sq \<Rightarrow> \<not> isPiece sq King c | None \<Rightarrow> True) ps \<Longrightarrow>
     findKingIn b c ps = Some \<lparr>row = - 1, col = - 1\<rparr>"
proof (induction ps)
  case Nil then show ?case by simp
next
  case (Cons p ps)
  then obtain sq where "sqAt b (row p) (col p) = Some sq"
    using sqAt_inBounds by (meson list.set_intros(1))
  moreover from Cons have "findKingIn b c ps = Some \<lparr>row = - 1, col = - 1\<rparr>" by simp
  ultimately show ?case using Cons.prems(3) by simp
qed

lemma isInCheck_total: "8 \<le> length b \<Longrightarrow> \<exists>v. isInCheck b c = Some v"
  using findKingIn_total[of b allSquares c] allSquares_inBounds isSquareAttacked_total[of b]
  by (fastforce simp: isInCheck_def findKing_def)

lemma rayAttack_out: "\<not> inBounds r c \<Longrightarrow> rayAttack b byColor types r c dr dc = Some False"
  by (subst rayAttack.simps) simp

lemma rayAttack_diag:
  assumes "8 \<le> length b"
    and "\<And>i. 0 \<le> i \<Longrightarrow> i < 8 \<Longrightarrow> \<not> occupiedBy b i i types byColor"
  shows "0 \<le> k \<Longrightarrow> rayAttack b byColor types k k 1 1 = Some False"
proof (induction "nat (8 - k)" arbitrary: k)
  case 0
  then have "\<not> inBounds k k" by (simp add: inBounds_def)
  then show ?case by (rule rayAttack_out)
next
  case (Suc n)
  then have k: "0 \<le> k" "k < 8" by simp_all
  then have ib: "inBounds k k" by (simp add: inBounds_def)
  with assms(1) obtain sq where sq: "sqAt b k k = Some sq" using sqAt_inBounds by blast
  show ?case
  proof (cases sq)
    case None
    have "rayAttack b byColor types (k + 1) (k + 1) 1 1 = Some False"
      using Suc(1)[of "k + 1"] Suc(2) k by simp
    with ib sq None show ?thesis by (subst rayAttack.simps) simp
  next
    case (Some p)
    with assms(2)[OF k] sq have "\<not> (color p = byColor \<and> ptype p \<in> set types)"
      by (simp add: occupiedBy_def)
    with ib sq Some show ?thesis by (subst rayAttack.simps) simp
  qed
qed

lemma probe_clear:
  assumes "8 \<le> length b" and "\<not> inBounds r c \<or> \<not> occupiedBy b r c [t] byColor"
  shows "probe b t byColor r c = Some False"
proof (cases "inBounds r c")
  case False
  then show ?thesis by (simp add: probe_def)
next
  case True
  with assms(1) obtain sq where sq: "sqAt b r c = Some sq" using sqAt_inBounds by blast
  with True assms(2) show ?thesis
    by (cases sq) (auto simp: probe_def occupiedBy_def isPiece_def)
qed

lemma occupiedBy_mono:
  "\<not> occupiedBy b r c types byColor \<Longrightarrow> set ts \<subseteq> set types \<Longrightarrow> \<not> occupiedBy b r c ts byColor"
  by (auto simp: occupiedBy_def split: option.splits)

lemma sentinel_not_attacked:
  assumes len: "8 \<le> length b" and safe: "sentinelSafe b byColor"
    and pos: "row pos = - 1" "col pos = - 1"
  shows "isSquareAttacked b pos byColor = Some False"
proof -
  from safe have s00: "\<not> occupiedBy b 0 0 [Pawn, King] byColor"
    and s01: "\<not> occupiedBy b 0 1 [Knight] byColor" and s10: "\<not> occupiedBy b 1 0 [Knight] byColor"
    and diag: "\<And>i. 0 \<le> i \<Longrightarrow> i < 8 \<Longrightarrow> \<not> occupiedBy b i i [Bishop, Queen] byColor"
    by (auto simp: sentinelSafe_def list_all_iff)
  from s00 have p00: "\<not> occupiedBy b 0 0 [Pawn] byColor" and k00: "\<not> occupiedBy b 0 0 [King] byColor"
    using occupiedBy_mono[OF s00, of "[Pawn]"] occupiedBy_mono[OF s00, of "[King]"] by simp_all
  have pawn: "anyM (\<lambda>dc. probe b Pawn byColor (row pos + (if byColor = White then 1 else - 1))
                 (col pos + dc)) [- 1, 1] = Some False"
    by (rule anyM_False)
      (use p00 in \<open>auto simp: pos inBounds_def intro!: probe_clear[OF len]\<close>)
  have knight: "anyM (\<lambda>(dr, dc). probe b Knight byColor (row pos + dr) (col pos + dc))
                  knightOffsets = Some False"
    by (rule anyM_False)
      (use s01 s10 in \<open>auto simp: pos inBounds_def knightOffsets_def intro!: probe_clear[OF len]\<close>)
  have king: "anyM (\<lambda>(dr, dc). probe b King byColor (row pos + dr) (col pos + dc))
                  kingOffsets = Some False"
    by (rule anyM_False)
      (use k00 in \<open>auto simp: pos inBounds_def kingOffsets_eq intro!: probe_clear[OF len]\<close>)
  have d0: "rayAttack b byColor [Bishop, Queen] 0 0 1 1 = Some False"
    using rayAttack_diag[OF len diag, of 0] by simp
  have rays: "anyM (\<lambda>((dr, dc), types).
                     rayAttack b byColor types (row pos + dr) (col pos + dc) dr dc)
                (map (\<lambda>d. (d, [Rook, Queen])) rookDirs @
                 map (\<lambda>d. (d, [Bishop, Queen])) bishopDirs) = Some False"
    by (rule anyM_False)
      (auto simp: pos inBounds_def rookDirs_def bishopDirs_def rayAttack_out d0)
  show ?thesis unfolding isSquareAttacked_def Let_def
    by (simp del: anyM.simps add: pawn knight king rays)
qed

subsection \<open>The fields of the state after a move\<close>

lemma rightsLe_refl: "rightsLe a a"
  by (simp add: rightsLe_def)

lemma rightsLe_trans: "rightsLe a b \<Longrightarrow> rightsLe b c \<Longrightarrow> rightsLe a c"
  by (simp add: rightsLe_def)

lemma newCastling_le: "rightsLe (newCastling cr m) cr"
  by (cases "color (piece m)")
    (auto simp: newCastling_def rightsLe_def Let_def setRights_def rightsOf_def split: option.splits)

lemma makeMove_fields:
  assumes "makeMove s m = Some s'"
  shows "applyMoveToBoard (board s) m = Some (board s')"
    and "turn s' = (if turn s = White then Black else White)"
    and "castlingRights s' = newCastling (castlingRights s) m"
    and "enPassantTarget s' = newEnPassant m"
    and "halfMoveClock s' =
           (if ptype (piece m) = Pawn \<or> captured m \<noteq> None then 0 else halfMoveClock s + 1)"
    and "fullMoveNumber s' = (if turn s = Black then fullMoveNumber s + 1 else fullMoveNumber s)"
    and "moveHistory s' = moveHistory s @ [m]"
  using assms
  by (auto simp: makeMove_def Let_def bind_eq_Some_conv split: if_splits)

lemma getRawMoves_cong:
  "board s = board t \<Longrightarrow> turn s = turn t \<Longrightarrow> castlingRights s = castlingRights t \<Longrightarrow>
   enPassantTarget s = enPassantTarget t \<Longrightarrow> getRawMoves s = getRawMoves t"
  by (simp add: getRawMoves_def fun_eq_iff cong: if_cong option.case_cong)

lemma getLegalMoves_cong:
  "board s = board t \<Longrightarrow> turn s = turn t \<Longrightarrow> castlingRights s = castlingRights t \<Longrightarrow>
   enPassantTarget s = enPassantTarget t \<Longrightarrow> getLegalMoves s = getLegalMoves t"
proof -
  assume a: "board s = board t" "turn s = turn t" "castlingRights s = castlingRights t"
    "enPassantTarget s = enPassantTarget t"
  then have h: "leavesKingSafe s = leavesKingSafe t"
    by (intro ext) (simp add: leavesKingSafe_def)
  show ?thesis by (rule ext) (simp add: getLegalMoves_def h getRawMoves_cong[OF a])
qed

lemma getAllLegalMoves_cong:
  "board s = board t \<Longrightarrow> turn s = turn t \<Longrightarrow> castlingRights s = castlingRights t \<Longrightarrow>
   enPassantTarget s = enPassantTarget t \<Longrightarrow> getAllLegalMoves s = getAllLegalMoves t"
  using getLegalMoves_cong[of s t]
  by (simp add: getAllLegalMoves_def cong: if_cong option.case_cong)

lemma makeMove_draw:
  assumes "makeMove s m = Some s'" "getAllLegalMoves s' = Some ms" "ms \<noteq> []"
    "100 \<le> halfMoveClock s'"
  shows "status s' = Draw"
proof -
  let ?T = "\<lambda>nb. \<lparr>board = nb, turn = (if turn s = White then Black else White),
             castlingRights = newCastling (castlingRights s) m,
             enPassantTarget = newEnPassant m,
             halfMoveClock =
               (if ptype (piece m) = Pawn \<or> captured m \<noteq> None then 0 else halfMoveClock s + 1),
             fullMoveNumber =
               (if turn s = Black then fullMoveNumber s + 1 else fullMoveNumber s),
             moveHistory = moveHistory s @ [m], status = Active, winner = None\<rparr>"
  from assms(1) obtain newBoard legalMoves where
    nb: "applyMoveToBoard (board s) m = Some newBoard"
    and lm: "getAllLegalMoves (?T newBoard) = Some legalMoves"
    and rest: "(if length legalMoves = 0 then
            do { chk \<leftarrow> isInCheck newBoard (if turn s = White then Black else White);
                 if chk then Some ((?T newBoard)\<lparr>status := Checkmate, winner := Some (turn s)\<rparr>)
                 else Some ((?T newBoard)\<lparr>status := Stalemate\<rparr>) }
          else if halfMoveClock (?T newBoard) \<ge> 100 then Some ((?T newBoard)\<lparr>status := Draw\<rparr>)
          else Some (?T newBoard)) = Some s'"
    unfolding makeMove_def Let_def bind_eq_Some_conv by blast
  have "getAllLegalMoves s' = getAllLegalMoves (?T newBoard)"
    using makeMove_fields[OF assms(1)] nb by (intro getAllLegalMoves_cong) simp_all
  with lm assms(2,3) have ne: "legalMoves \<noteq> []" by simp
  have "halfMoveClock s' = halfMoveClock (?T newBoard)" using makeMove_fields(5)[OF assms(1)] by simp
  with assms(4) have "100 \<le> halfMoveClock (?T newBoard)" by simp
  with rest ne show ?thesis by (auto split: if_splits)
qed

lemma makeMoves_rights:
  "makeMoves s ms = Some s' \<Longrightarrow> rightsLe (castlingRights s') (castlingRights s)"
proof (induction ms arbitrary: s)
  case Nil
  then show ?case by (simp add: rightsLe_refl)
next
  case (Cons m ms)
  then obtain s1 where s1: "makeMove s m = Some s1" and rest: "makeMoves s1 ms = Some s'"
    by (auto simp: bind_eq_Some_conv)
  from makeMove_fields(3)[OF s1] have "rightsLe (castlingRights s1) (castlingRights s)"
    by (simp add: newCastling_le)
  with Cons.IH[OF rest] show ?case by (blast intro: rightsLe_trans)
qed


lemma rookTour_run:
  "map_option (\<lambda>s'. (sqAt (board s') 7 7, castlingRights s')) (makeMoves createInitialState rookTour)
     = Some (Some (Some \<lparr>ptype = Rook, color = White\<rparr>),
             \<lparr>cw = \<lparr>ks = False, qs = True\<rparr>, cb = \<lparr>ks = True, qs = True\<rparr>\<rparr>)"
  by code_simp

lemma knight_at_99:
  "map_option (\<lambda>s'. (halfMoveClock s', status s', map_option length (getAllLegalMoves s')))
     (makeMove (createInitialState\<lparr>halfMoveClock := 99\<rparr>)
        (baseMove \<lparr>row = 7, col = 6\<rparr> \<lparr>ptype = Knight, color = White\<rparr> \<lparr>row = 5, col = 5\<rparr> None))
   = Some (100, Draw, Some 20)"
  by code_simp

subsection \<open>The submit handler\<close>








lemma checkRateLimit_other:
  "u \<noteq> uid \<Longrightarrow> snd (checkRateLimit t u m) uid = m uid"
  by (simp add: checkRateLimit_def split: option.splits)

lemma checkRateLimit_False:
  "\<not> fst (checkRateLimit t u m) \<Longrightarrow> snd (checkRateLimit t u m) = m"
  by (auto simp: checkRateLimit_def split: option.splits if_splits)

lemma acceptedIn_Cons:
  "acceptedIn m ((t, u) # cs) uid lo hi =
     (if fst (checkRateLimit t u m) \<and> u = uid \<and> lo \<le> t \<and> t < hi then 1 else 0) +
     acceptedIn (snd (checkRateLimit t u m)) cs uid lo hi"
  by (simp add: acceptedIn_def split: prod.splits)

lemma runLimiter_bound:
  assumes "m uid = Some entry" and "\<forall>(t, u) \<in> set cs. u = uid \<longrightarrow> t \<le> resetAt entry"
  shows "int (acceptedIn m cs uid lo hi) \<le> max 0 (RATE_LIMIT - count entry)"
  using assms
proof (induction cs arbitrary: m entry)
  case Nil
  then show ?case by (simp add: acceptedIn_def)
next
  case (Cons c cs)
  obtain t u where c: "c = (t, u)" by (cases c)
  from Cons.prems(2) have rest: "\<forall>(t, u) \<in> set cs. u = uid \<longrightarrow> t \<le> resetAt entry" by simp
  show ?case
  proof (cases "u = uid")
    case False
    then have "snd (checkRateLimit t u m) uid = Some entry"
      using Cons.prems(1) by (simp add: checkRateLimit_other)
    with rest have "int (acceptedIn (snd (checkRateLimit t u m)) cs uid lo hi)
        \<le> max 0 (RATE_LIMIT - count entry)" by (intro Cons.IH)
    with False show ?thesis by (simp add: c acceptedIn_Cons)
  next
    case True
    with Cons.prems(2) c have t: "t \<le> resetAt entry" by simp
    show ?thesis
    proof (cases "count entry \<ge> RATE_LIMIT")
      case full: True
      with t True Cons.prems(1) have "checkRateLimit t u m = (False, m)"
        by (simp add: checkRateLimit_def)
      moreover from Cons.prems(1) rest
      have "int (acceptedIn m cs uid lo hi) \<le> max 0 (RATE_LIMIT - count entry)"
        by (intro Cons.IH)
      ultimately show ?thesis by (simp add: c acceptedIn_Cons)
    next
      case room: False
      with t True Cons.prems(1)
      have step: "checkRateLimit t u m = (True, m(uid \<mapsto> entry\<lparr>count := count entry + 1\<rparr>))"
        by (simp add: checkRateLimit_def)
      have "int (acceptedIn (m(uid \<mapsto> entry\<lparr>count := count entry + 1\<rparr>)) cs uid lo hi)
              \<le> max 0 (RATE_LIMIT - count (entry\<lparr>count := count entry + 1\<rparr>))"
        by (rule Cons.IH) (use rest in simp_all)
      with room show ?thesis by (simp add: c acceptedIn_Cons step)
    qed
  qed
qed

lemma fixed_window_bound:
  assumes "opensWindow t0 uid m" and "\<forall>(t, u) \<in> set cs. u = uid \<longrightarrow> t \<le> t0 + RATE_WINDOW"
  shows "acceptedIn m ((t0, uid) # cs) uid lo hi \<le> 30"
proof -
  let ?e = "\<lparr>count = 1, resetAt = t0 + RATE_WINDOW\<rparr>"
  from assms(1) have step: "checkRateLimit t0 uid m = (True, m(uid \<mapsto> ?e))"
    by (auto simp: opensWindow_def checkRateLimit_def split: option.splits)
  have "int (acceptedIn (m(uid \<mapsto> ?e)) cs uid lo hi) \<le> max 0 (RATE_LIMIT - count ?e)"
    by (rule runLimiter_bound) (use assms(2) in simp_all)
  then have "acceptedIn (m(uid \<mapsto> ?e)) cs uid lo hi \<le> 29" by (simp add: RATE_LIMIT_def)
  then show ?thesis by (simp add: acceptedIn_Cons step)
qed

lemma handler_rate_limited:
  assumes "\<not> isOptions rq" "authHeader rq \<noteq> None" "tokenUser rq = Some uid"
    "\<not> fst (checkRateLimit (now rq) uid (rateLimitMap st))"
  shows "handler st rq = (Failure 429 ''Rate limited'', st)"
proof -
  from assms(4) checkRateLimit_False[OF assms(4)]
  have "checkRateLimit (now rq) uid (rateLimitMap st) = (False, rateLimitMap st)"
    by (cases "checkRateLimit (now rq) uid (rateLimitMap st)") simp
  with assms(1-3) show ?thesis by (simp add: handler_def admit_def)
qed

lemma forty_calls:
  "acceptedIn Map.empty ((0, ''u'') # replicate 40 (1, ''u'')) ''u'' 0 RATE_WINDOW = 30"
  by code_simp






subsection \<open>Reconciliation on the client\<close>

lemma syncFromRow_stale: "stale data cl \<Longrightarrow> syncFromRow data cl = cl"
  by (auto simp: syncFromRow_def stale_def Let_def)

lemma syncFromRow_fresh: "\<not> stale data cl \<Longrightarrow> gameRow (syncFromRow data cl) = Some data"
  by (auto simp: syncFromRow_def stale_def Let_def)

lemma syncFromRow_refs:
  "gameRowRef (syncFromRow data cl) = gameRowRef cl \<and>
   moveCountRef (syncFromRow data cl) = moveCountRef cl"
  by (simp add: syncFromRow_def Let_def)

lemma syncRefs_idem: "syncRefs (syncRefs cl) = syncRefs cl"
  by (simp add: syncRefs_def)

lemma syncFromRow_twice: "syncFromRow data (syncFromRow data cl) = syncFromRow data cl"
  by (simp add: syncFromRow_def Let_def split: option.splits)

subsection \<open>A stored move names one legal move\<close>

lemma plainAt_flags:
  assumes "plainAt b frm pc m"
  shows "promotion m = None" "castling m = None" "\<not> enPassant m"
proof -
  from assms have "m = baseMove frm pc (to_pos m) (captured m)" by (simp add: plainAt_def)
  then have "promotion m = promotion (baseMove frm pc (to_pos m) (captured m))"
    "castling m = castling (baseMove frm pc (to_pos m) (captured m))"
    "enPassant m = enPassant (baseMove frm pc (to_pos m) (captured m))" by simp_all
  then show "promotion m = None" "castling m = None" "\<not> enPassant m"
    by (simp_all add: baseMove_def)
qed

lemma promoAt_flags:
  assumes "promoAt b frm pc m"
  shows "\<exists>pr \<in> set promoTypes. promotion m = Some pr" "castling m = None" "\<not> enPassant m"
proof -
  from assms obtain pr where pr: "pr \<in> set promoTypes"
    and m: "m = (baseMove frm pc (to_pos m) (captured m))\<lparr>promotion := Some pr\<rparr>"
    by (auto simp: promoAt_def)
  let ?x = "(baseMove frm pc (to_pos m) (captured m))\<lparr>promotion := Some pr\<rparr>"
  from m have "promotion m = promotion ?x" "castling m = castling ?x" "enPassant m = enPassant ?x"
    by simp_all
  with pr show "\<exists>pr \<in> set promoTypes. promotion m = Some pr" "castling m = None" "\<not> enPassant m"
    by (simp_all add: baseMove_def)
qed

lemma epAt_flags:
  assumes "epAt b frm pc m"
  shows "promotion m = None" "castling m = None" "enPassant m"
proof -
  let ?x = "(baseMove frm pc (to_pos m) (captured m))\<lparr>enPassant := True\<rparr>"
  from assms have "m = ?x" by (simp add: epAt_def)
  then have "promotion m = promotion ?x" "castling m = castling ?x" "enPassant m = enPassant ?x"
    by simp_all
  then show "promotion m = None" "castling m = None" "enPassant m"
    by (simp_all add: baseMove_def)
qed

lemma castleAt_flags:
  assumes "castleAt b frm pc side m"
  shows "promotion m = None" "castling m = Some side" "\<not> enPassant m"
    "to_pos m = \<lparr>row = row frm, col = (if side = Kingside then 6 else 2)\<rparr>"
proof -
  let ?x = "(baseMove frm pc \<lparr>row = row frm, col = (if side = Kingside then 6 else 2)\<rparr>
             (captured m))\<lparr>castling := Some side\<rparr>"
  from assms have "m = ?x" by (simp add: castleAt_def)
  then have "promotion m = promotion ?x" "castling m = castling ?x" "enPassant m = enPassant ?x"
    "to_pos m = to_pos ?x"
    by simp_all
  then show "promotion m = None" "castling m = Some side" "\<not> enPassant m"
    "to_pos m = \<lparr>row = row frm, col = (if side = Kingside then 6 else 2)\<rparr>"
    by (simp_all add: baseMove_def)
qed

lemma plain_unique:
  assumes "plainAt b frm pc l" "plainAt b frm pc m" "to_pos l = to_pos m"
  shows "l = m"
proof -
  from assms have "Some (captured l) = Some (captured m)" by (simp add: plainAt_def)
  then have "captured l = captured m" by simp
  moreover from assms have "l = baseMove frm pc (to_pos l) (captured l)"
    "m = baseMove frm pc (to_pos m) (captured m)" by (simp_all add: plainAt_def)
  ultimately show ?thesis using assms(3) by simp
qed

lemma promo_unique:
  assumes "promoAt b frm pc l" "promoAt b frm pc m" "to_pos l = to_pos m"
    "promotion l = promotion m"
  shows "l = m"
proof -
  from assms have "Some (captured l) = Some (captured m)" by (simp add: promoAt_def)
  then have c: "captured l = captured m" by simp
  from assms(1) obtain pl where
    l: "l = (baseMove frm pc (to_pos l) (captured l))\<lparr>promotion := Some pl\<rparr>"
    by (auto simp: promoAt_def)
  from assms(2) obtain pm where
    m: "m = (baseMove frm pc (to_pos m) (captured m))\<lparr>promotion := Some pm\<rparr>"
    by (auto simp: promoAt_def)
  from l have "promotion l = promotion ((baseMove frm pc (to_pos l) (captured l))\<lparr>promotion := Some pl\<rparr>)"
    by simp
  then have pl: "promotion l = Some pl" by (simp add: baseMove_def)
  from m have "promotion m = promotion ((baseMove frm pc (to_pos m) (captured m))\<lparr>promotion := Some pm\<rparr>)"
    by simp
  then have pm: "promotion m = Some pm" by (simp add: baseMove_def)
  from pl pm assms(4) have "pl = pm" by simp
  with l m c assms(3) show ?thesis by simp
qed

lemma ep_unique:
  assumes "epAt b frm pc l" "epAt b frm pc m" "to_pos l = to_pos m"
  shows "l = m"
proof -
  from assms have "Some (captured l) = Some (captured m)" by (simp add: epAt_def)
  then have "captured l = captured m" by simp
  moreover from assms have "l = (baseMove frm pc (to_pos l) (captured l))\<lparr>enPassant := True\<rparr>"
    "m = (baseMove frm pc (to_pos m) (captured m))\<lparr>enPassant := True\<rparr>"
    by (simp_all add: epAt_def)
  ultimately show ?thesis using assms(3) by simp
qed

lemma castle_unique:
  assumes "castleAt b frm pc side l" "castleAt b frm pc side m"
  shows "l = m"
proof -
  from assms have "Some (captured l) = Some (captured m)" by (simp add: castleAt_def)
  then have "captured l = captured m" by simp
  moreover from assms
  have "l = (baseMove frm pc \<lparr>row = row frm, col = (if side = Kingside then 6 else 2)\<rparr>
             (captured l))\<lparr>castling := Some side\<rparr>"
    "m = (baseMove frm pc \<lparr>row = row frm, col = (if side = Kingside then 6 else 2)\<rparr>
             (captured m))\<lparr>castling := Some side\<rparr>"
    by (simp_all add: castleAt_def)
  ultimately show ?thesis by simp
qed

lemma pawnShape_cases:
  assumes "pawnShape b ep frm pc x"
  obtains (plain) "plainAt b frm pc x"
      "col (to_pos x) \<noteq> col frm \<longrightarrow> captured x \<noteq> None"
      "row (to_pos x) = row frm + pawnDir pc \<and> row (to_pos x) \<noteq> pawnPromoRow pc \<or>
       row (to_pos x) = row frm + 2 * pawnDir pc \<and> col (to_pos x) = col frm"
    | (promo) "promoAt b frm pc x" "row (to_pos x) = row frm + pawnDir pc"
      "row (to_pos x) = pawnPromoRow pc" "col (to_pos x) \<noteq> col frm \<longrightarrow> captured x \<noteq> None"
    | (ep) "epAt b frm pc x" "ep = Some (to_pos x)" "col (to_pos x) \<noteq> col frm"
      "row (to_pos x) = row frm + pawnDir pc"
  using assms unfolding pawnShape_def by blast

lemma occupied_not_ep:
  assumes inv: "\<And>e. ep = Some e \<Longrightarrow> sqAt b (row e) (col e) = Some None"
    and sq: "sqAt b (row (to_pos x)) (col (to_pos x)) = Some (captured x)"
    and cap: "col (to_pos x) \<noteq> col frm \<longrightarrow> captured x \<noteq> None"
    and y: "ep = Some (to_pos y)" "col (to_pos y) \<noteq> col frm" "to_pos x = to_pos y"
  shows False
proof -
  from inv[OF y(1)] y(3) have "sqAt b (row (to_pos x)) (col (to_pos x)) = Some None" by simp
  with sq have "captured x = None" by simp
  with cap y(2,3) show False by simp
qed

lemma pawn_unique:
  assumes inv: "\<And>e. ep = Some e \<Longrightarrow> sqAt b (row e) (col e) = Some None"
    and l: "pawnShape b ep frm pc l" and m: "pawnShape b ep frm pc m"
    and to: "to_pos l = to_pos m"
    and pr: "promotion m = None \<or> promotion l = promotion m"
  shows "l = m"
proof -
  have dir: "pawnDir pc \<noteq> 0" using pawnDir_cases[of pc] by auto
  from l show ?thesis
  proof (cases rule: pawnShape_cases)
    case lp: plain
    from m show ?thesis
    proof (cases rule: pawnShape_cases)
      case plain
      with lp to show ?thesis by (simp add: plain_unique)
    next
      case promo
      with lp(3) to dir show ?thesis by auto
    next
      case ep
      from lp(1) have "sqAt b (row (to_pos l)) (col (to_pos l)) = Some (captured l)"
        by (simp add: plainAt_def)
      from occupied_not_ep[OF inv this lp(2) ep(2,3) to] show ?thesis by simp
    qed
  next
    case lq: promo
    from m show ?thesis
    proof (cases rule: pawnShape_cases)
      case plain
      with lq(2,3) to dir show ?thesis by auto
    next
      case promo
      from promoAt_flags(1)[OF promo(1)] pr have "promotion l = promotion m" by auto
      with lq(1) promo(1) to show ?thesis by (simp add: promo_unique)
    next
      case ep
      from lq(1) have "sqAt b (row (to_pos l)) (col (to_pos l)) = Some (captured l)"
        by (simp add: promoAt_def)
      from occupied_not_ep[OF inv this lq(4) ep(2,3) to] show ?thesis by simp
    qed
  next
    case le: ep
    from m show ?thesis
    proof (cases rule: pawnShape_cases)
      case plain
      from plain(1) have "sqAt b (row (to_pos m)) (col (to_pos m)) = Some (captured m)"
        by (simp add: plainAt_def)
      from occupied_not_ep[OF inv this plain(2) le(2,3) to[symmetric]] show ?thesis by simp
    next
      case promo
      from promo(1) have "sqAt b (row (to_pos m)) (col (to_pos m)) = Some (captured m)"
        by (simp add: promoAt_def)
      from occupied_not_ep[OF inv this promo(4) le(2,3) to[symmetric]] show ?thesis by simp
    next
      case ep
      with le(1) to show ?thesis by (simp add: ep_unique)
    qed
  qed
qed

lemma king_unique:
  assumes home: "ks cr \<or> qs cr \<longrightarrow> col frm = 4"
    and l: "kingShape b cr frm pc l" and m: "kingShape b cr frm pc m"
    and to: "to_pos l = to_pos m"
  shows "l = m"
proof -
  have clash: False
    if "plainAt b frm pc x" "\<bar>col (to_pos x) - col frm\<bar> \<le> 1" "castleAt b frm pc side y"
      "ks cr \<or> qs cr" "to_pos x = to_pos y" for x y side
  proof -
    from castleAt_flags(4)[OF that(3)] have "col (to_pos y) = 6 \<or> col (to_pos y) = 2" by auto
    with that(2,4,5) home show False by auto
  qed
  from l m consider
      (pp) "plainAt b frm pc l" "plainAt b frm pc m"
    | (pc) side where "plainAt b frm pc l" "\<bar>col (to_pos l) - col frm\<bar> \<le> 1"
        "castleAt b frm pc side m" "ks cr \<or> qs cr"
    | (cp) side where "plainAt b frm pc m" "\<bar>col (to_pos m) - col frm\<bar> \<le> 1"
        "castleAt b frm pc side l" "ks cr \<or> qs cr"
    | (cc) sl sm where "castleAt b frm pc sl l" "castleAt b frm pc sm m"
    unfolding kingShape_def by blast
  then show ?thesis
  proof cases
    case pp
    with to show ?thesis by (simp add: plain_unique)
  next
    case pc
    from clash[OF pc(1,2,3,4) to] show ?thesis ..
  next
    case cp
    from clash[OF cp(1,2,3,4) to[symmetric]] show ?thesis ..
  next
    case cc
    from castleAt_flags(4)[OF cc(1)] castleAt_flags(4)[OF cc(2)] to have "sl = sm"
      by (cases sl; cases sm) auto
    with cc show ?thesis by (simp add: castle_unique)
  qed
qed

lemma raw_unique:
  assumes "epEmpty s" "kingsHome s" "getRawMoves s frm = Some ms"
    and "l \<in> set ms" "m \<in> set ms" "to_pos l = to_pos m"
    and "promotion m = None \<or> promotion l = promotion m"
  shows "l = m"
proof -
  from getRawMoves_shape[OF assms(3,4)] getRawMoves_shape[OF assms(3,5)]
  obtain pc where pc: "sqAt (board s) (row frm) (col frm) = Some (Some pc)" "color pc = turn s"
    and l: "rawShape s frm pc l" and m: "rawShape s frm pc m"
    by auto
  show ?thesis
  proof (cases "ptype pc = Pawn")
    case True
    have "sqAt (board s) (row e) (col e) = Some None" if "enPassantTarget s = Some e" for e
      using assms(1) that by (simp add: epEmpty_def)
    with True l m assms(6,7) show ?thesis
      by (auto simp: rawShape_def intro: pawn_unique)
  next
    case False
    show ?thesis
    proof (cases "ptype pc = King")
      case True
      from assms(2) pc True
      have "ks (rightsOf (castlingRights s) (turn s)) \<or> qs (rightsOf (castlingRights s) (turn s))
              \<longrightarrow> col frm = 4"
        using assms(2)[unfolded kingsHome_def, rule_format, of "row frm" "col frm" pc] by simp
      with True l m assms(6) show ?thesis
        by (auto simp: rawShape_def intro: king_unique)
    next
      case notking: False
      with False l m assms(6) show ?thesis by (auto simp: rawShape_def intro: plain_unique)
    qed
  qed
qed

lemma applyMove_steps:
  assumes "applyMoveToBoard b m = Some nb"
  obtains moved b1 b2 b3 b4 where
    "movedSq b m = Some moved"
    "setSq b (row (to_pos m)) (col (to_pos m)) moved = Some b1"
    "setSq b1 (row (from_pos m)) (col (from_pos m)) None = Some b2"
    "(if enPassant m then setSq b2 (row (from_pos m)) (col (to_pos m)) None else Some b2) = Some b3"
    "(if castling m = Some Kingside then
        do { rook \<leftarrow> sqAt b3 (row (from_pos m)) 7;
             b' \<leftarrow> setSq b3 (row (from_pos m)) 5 rook;
             setSq b' (row (from_pos m)) 7 None }
      else Some b3) = Some b4"
    "(if castling m = Some Queenside then
        do { rook \<leftarrow> sqAt b4 (row (from_pos m)) 0;
             b' \<leftarrow> setSq b4 (row (from_pos m)) 3 rook;
             setSq b' (row (from_pos m)) 0 None }
      else Some b4) = Some nb"
  using assms unfolding applyMoveToBoard_def cloneBoard_id Let_def bind_eq_Some_conv movedSq_def
  by blast

lemma rookHop:
  assumes "do { rook \<leftarrow> sqAt b (r0 :: int) cFrom;
                b' \<leftarrow> setSq b r0 cTo rook;
                setSq b' r0 cFrom None } = Some nb"
    and "sqAt nb r c = Some (Some p)"
  shows "sqAt b r c = Some (Some p) \<or> sqAt b r0 cFrom = Some (Some p)"
proof -
  from assms(1) obtain rook b' where rook: "sqAt b r0 cFrom = Some rook"
    and b': "setSq b r0 cTo rook = Some b'" and nb: "setSq b' r0 cFrom None = Some nb"
    by (auto simp: bind_eq_Some_conv)
  from assms(2) show ?thesis
    unfolding sqAt_setSq[OF nb] sqAt_setSq[OF b'] using rook by (auto split: if_splits)
qed

lemma applyMove_provenance:
  assumes "applyMoveToBoard b m = Some nb" and "sqAt nb r c = Some (Some p)"
  shows "sqAt b r c = Some (Some p) \<or>
         (r = row (to_pos m) \<and> c = col (to_pos m) \<and> movedSq b m = Some (Some p)) \<or>
         (castling m \<noteq> None \<and>
            (movedSq b m = Some (Some p) \<or> sqAt b (row (from_pos m)) 7 = Some (Some p) \<or>
             sqAt b (row (from_pos m)) 0 = Some (Some p)))"
proof -
  from assms(1) obtain moved b1 b2 b3 b4 where
    mv: "movedSq b m = Some moved"
    and b1: "setSq b (row (to_pos m)) (col (to_pos m)) moved = Some b1"
    and b2: "setSq b1 (row (from_pos m)) (col (from_pos m)) None = Some b2"
    and b3: "(if enPassant m then setSq b2 (row (from_pos m)) (col (to_pos m)) None else Some b2) = Some b3"
    and b4: "(if castling m = Some Kingside then
        do { rook \<leftarrow> sqAt b3 (row (from_pos m)) 7;
             b' \<leftarrow> setSq b3 (row (from_pos m)) 5 rook;
             setSq b' (row (from_pos m)) 7 None }
      else Some b3) = Some b4"
    and nb: "(if castling m = Some Queenside then
        do { rook \<leftarrow> sqAt b4 (row (from_pos m)) 0;
             b' \<leftarrow> setSq b4 (row (from_pos m)) 3 rook;
             setSq b' (row (from_pos m)) 0 None }
      else Some b4) = Some nb"
    by (rule applyMove_steps)
  have s3: "sqAt b r' c' = Some (Some p) \<or>
            (r' = row (to_pos m) \<and> c' = col (to_pos m) \<and> moved = Some p)"
    if "sqAt b3 r' c' = Some (Some p)" for r' c'
  proof -
    from that b3 have "sqAt b2 r' c' = Some (Some p)"
      by (cases "enPassant m") (auto simp: sqAt_setSq split: if_splits)
    then have "sqAt b1 r' c' = Some (Some p)"
      unfolding sqAt_setSq[OF b2] by (auto split: if_splits)
    then show ?thesis unfolding sqAt_setSq[OF b1] by (auto split: if_splits)
  qed
  have s4: "sqAt b3 r' c' = Some (Some p) \<or>
            (castling m = Some Kingside \<and> sqAt b3 (row (from_pos m)) 7 = Some (Some p))"
    if "sqAt b4 r' c' = Some (Some p)" for r' c'
  proof (cases "castling m = Some Kingside")
    case True
    with b4 rookHop[OF _ that] show ?thesis by auto
  next
    case False
    with b4 that show ?thesis by simp
  qed
  have s5: "sqAt b4 r c = Some (Some p) \<or>
            (castling m = Some Queenside \<and> sqAt b4 (row (from_pos m)) 0 = Some (Some p))"
  proof (cases "castling m = Some Queenside")
    case True
    with nb rookHop[OF _ assms(2)] show ?thesis by auto
  next
    case False
    with nb assms(2) show ?thesis by simp
  qed
  from s5 s4 s3 mv show ?thesis by (elim disjE conjE) (metis option.distinct(1))+
qed

lemma applyMove_empty_stays:
  assumes "applyMoveToBoard b m = Some nb" and "castling m = None"
    and "sqAt b r c = Some None" and "\<not> (r = row (to_pos m) \<and> c = col (to_pos m))"
  shows "sqAt nb r c = Some None"
proof -
  from assms(1) obtain moved b1 b2 b3 b4 where
    mv: "movedSq b m = Some moved"
    and b1: "setSq b (row (to_pos m)) (col (to_pos m)) moved = Some b1"
    and b2: "setSq b1 (row (from_pos m)) (col (from_pos m)) None = Some b2"
    and b3: "(if enPassant m then setSq b2 (row (from_pos m)) (col (to_pos m)) None else Some b2) = Some b3"
    and b4: "(if castling m = Some Kingside then
        do { rook \<leftarrow> sqAt b3 (row (from_pos m)) 7;
             b' \<leftarrow> setSq b3 (row (from_pos m)) 5 rook;
             setSq b' (row (from_pos m)) 7 None }
      else Some b3) = Some b4"
    and nb: "(if castling m = Some Queenside then
        do { rook \<leftarrow> sqAt b4 (row (from_pos m)) 0;
             b' \<leftarrow> setSq b4 (row (from_pos m)) 3 rook;
             setSq b' (row (from_pos m)) 0 None }
      else Some b4) = Some nb"
    by (rule applyMove_steps)
  from assms(2) b4 nb have "nb = b3" by simp
  moreover have "sqAt b1 r c = Some None" unfolding sqAt_setSq[OF b1] using assms(3,4) by auto
  then have "sqAt b2 r c = Some None" unfolding sqAt_setSq[OF b2] by simp
  then have "sqAt b3 r c = Some None" using b3
    by (cases "enPassant m") (auto simp: sqAt_setSq)
  ultimately show ?thesis by simp
qed

lemma rawShape_promotion:
  assumes "rawShape s frm pc m" "promotion m = Some pr"
  shows "pr \<in> set promoTypes"
proof -
  from assms(1) consider "plainAt (board s) frm pc m" | "promoAt (board s) frm pc m"
    | "epAt (board s) frm pc m" | side where "castleAt (board s) frm pc side m"
    by (auto simp: rawShape_def pawnShape_def kingShape_def split: if_splits)
  then show ?thesis
    using assms(2)
    by cases (auto dest: plainAt_flags promoAt_flags epAt_flags castleAt_flags)
qed

lemma rawShape_castling:
  assumes "rawShape s frm pc m" "castling m \<noteq> None"
  shows "ptype pc = King"
proof (rule ccontr)
  assume "ptype pc \<noteq> King"
  with assms(1) consider "plainAt (board s) frm pc m" | "promoAt (board s) frm pc m"
    | "epAt (board s) frm pc m"
    by (auto simp: rawShape_def pawnShape_def split: if_splits)
  then show False using assms(2)
    by cases (auto dest: plainAt_flags promoAt_flags epAt_flags)
qed

lemma rawShape_double:
  assumes "rawShape s frm pc m" "ptype pc = Pawn" "\<bar>row (to_pos m) - row frm\<bar> = 2"
  shows "plainAt (board s) frm pc m" "col (to_pos m) = col frm"
    "row (to_pos m) = row frm + 2 * pawnDir pc"
    "sqAt (board s) (row frm + pawnDir pc) (col frm) = Some None"
proof -
  from assms(1,2) have p: "pawnShape (board s) (enPassantTarget s) frm pc m"
    by (simp add: rawShape_def)
  have "\<bar>pawnDir pc\<bar> = 1" using pawnDir_cases[of pc] by auto
  with assms(3) have "row (to_pos m) \<noteq> row frm + pawnDir pc" by auto
  with p show "plainAt (board s) frm pc m" "col (to_pos m) = col frm"
    "row (to_pos m) = row frm + 2 * pawnDir pc"
    "sqAt (board s) (row frm + pawnDir pc) (col frm) = Some None"
    by (auto simp: pawnShape_def)
qed

lemma newCastling_rightsOf:
  "(ks (rightsOf (newCastling cr m) c) \<longrightarrow> ks (rightsOf cr c)) \<and>
   (qs (rightsOf (newCastling cr m) c) \<longrightarrow> qs (rightsOf cr c))"
  using newCastling_le[of cr m] by (cases c) (auto simp: rightsLe_def rightsOf_def)

lemma newCastling_king_cleared:
  assumes "ptype (piece m) = King"
  shows "\<not> ks (rightsOf (newCastling cr m) (color (piece m)))"
    and "\<not> qs (rightsOf (newCastling cr m) (color (piece m)))"
  using assms
  by (cases "color (piece m)";
      auto simp: newCastling_def Let_def setRights_def rightsOf_def split: option.splits)+

lemma inv_step:
  assumes ep: "epEmpty s" and kh: "kingsHome s"
    and raw: "getRawMoves s frm = Some ms" and mem: "m \<in> set ms"
    and mk: "makeMove s m = Some s'"
  shows "epEmpty s'" and "kingsHome s'"
proof -
  from getRawMoves_shape[OF raw mem] obtain pc where
    sq: "sqAt (board s) (row frm) (col frm) = Some (Some pc)" and col: "color pc = turn s"
    and sh: "rawShape s frm pc m" by blast
  from rawShape_fields[OF sh] have frm: "from_pos m = frm" and pc: "piece m = pc" by simp_all
  note f = makeMove_fields[OF mk]
  show "epEmpty s'"
  proof (cases "newEnPassant m")
    case None
    with f(4) show ?thesis by (simp add: epEmpty_def)
  next
    case (Some e)
    then have pawn: "ptype pc = Pawn" and two: "\<bar>row (to_pos m) - row frm\<bar> = 2"
      and e: "e = \<lparr>row = (row frm + row (to_pos m)) div 2, col = col frm\<rparr>"
      using frm pc by (auto simp: newEnPassant_def split: if_splits)
    note d = rawShape_double[OF sh pawn two]
    have dir: "pawnDir pc = 1 \<or> pawnDir pc = - 1" by (rule pawnDir_cases)
    from d(3) have er: "(row frm + row (to_pos m)) div 2 = row frm + pawnDir pc" by simp
    have "sqAt (board s') (row frm + pawnDir pc) (col frm) = Some None"
    proof (rule applyMove_empty_stays[OF f(1) _ d(4)])
      show "castling m = None" using plainAt_flags(2)[OF d(1)] .
      show "\<not> (row frm + pawnDir pc = row (to_pos m) \<and> col frm = col (to_pos m))"
        using d(3) dir by auto
    qed
    with Some e er f(4) show ?thesis by (simp add: epEmpty_def)
  qed
  show "kingsHome s'"
    unfolding kingsHome_def
  proof (intro allI impI, elim conjE)
    fix r c p
    assume at: "sqAt (board s') r c = Some (Some p)" and king: "ptype p = King"
      and rights': "ks (rightsOf (castlingRights s') (color p)) \<or>
                    qs (rightsOf (castlingRights s') (color p))"
    from rights' f(3) newCastling_rightsOf[of "castlingRights s" m "color p"]
    have rights: "ks (rightsOf (castlingRights s) (color p)) \<or>
                  qs (rightsOf (castlingRights s) (color p))" by auto
    have old: "c' = 4" if "sqAt (board s) r' c' = Some (Some p)" for r' c'
      using kh that king rights unfolding kingsHome_def by blast
    have notMoved: False if mv: "movedSq (board s) m = Some (Some p)"
    proof (cases "promotion m")
      case None
      with mv frm sq have "p = pc" by (simp add: movedSq_def)
      with king pc have k: "ptype (piece m) = King" and "color (piece m) = color p" by simp_all
      with newCastling_king_cleared[OF k, of "castlingRights s"] rights' f(3)
      show False by simp
    next
      case (Some pr)
      with mv have "ptype p = pr" by (auto simp: movedSq_def)
      with rawShape_promotion[OF sh Some] king show False by (simp add: promoTypes_def)
    qed
    from applyMove_provenance[OF f(1) at] show "c = 4"
    proof (elim disjE conjE)
      assume "sqAt (board s) r c = Some (Some p)"
      then show ?thesis by (rule old)
    next
      assume "movedSq (board s) m = Some (Some p)"
      then show ?thesis using notMoved by simp
    next
      assume "movedSq (board s) m = Some (Some p)"
      then show ?thesis using notMoved by simp
    next
      assume "sqAt (board s) (row (from_pos m)) 7 = Some (Some p)"
      from old[OF this] show ?thesis by simp
    next
      assume "sqAt (board s) (row (from_pos m)) 0 = Some (Some p)"
      from old[OF this] show ?thesis by simp
    qed
  qed
qed

lemma inBounds_allSquares:
  assumes "inBounds r c"
  shows "\<lparr>row = r, col = c\<rparr> \<in> set allSquares"
  using assms by (auto simp: allSquares_def inBounds_def intro!: bexI[of _ r])

lemma init_board_literal:
  "createInitialBoard =
     [map (\<lambda>t. Some \<lparr>ptype = t, color = Black\<rparr>) backRow,
      replicate 8 (Some \<lparr>ptype = Pawn, color = Black\<rparr>),
      replicate 8 None, replicate 8 None, replicate 8 None, replicate 8 None,
      replicate 8 (Some \<lparr>ptype = Pawn, color = White\<rparr>),
      map (\<lambda>t. Some \<lparr>ptype = t, color = White\<rparr>) backRow]"
  by code_simp

lemma init_rows: "list_all (\<lambda>rw. length rw = 8) createInitialBoard"
  by code_simp

lemma init_len: "length createInitialBoard = 8"
  by code_simp

lemma init_sq_inBounds:
  assumes "sqAt createInitialBoard r c = Some (Some p)"
  shows "inBounds r c"
proof -
  from assms obtain rw where rw: "jsIndex createInitialBoard r = Some rw"
    and sq: "jsIndex rw c = Some (Some p)"
    by (auto simp: sqAt_def split: option.splits)
  from rw have r: "0 \<le> r" "r < 8" and rwd: "rw = createInitialBoard ! nat r"
    using init_len by (auto simp: jsIndex_def split: if_splits)
  from r init_len have "rw \<in> set createInitialBoard" unfolding rwd by (intro nth_mem) simp
  with init_rows have "length rw = 8" by (simp add: list_all_iff)
  with sq have "0 \<le> c" "c < 8" by (auto simp: jsIndex_def split: if_splits)
  with r show ?thesis by (simp add: inBounds_def)
qed

lemma init_kings:
  "list_all (\<lambda>pos. case sqAt createInitialBoard (row pos) (col pos) of
                      Some (Some p) \<Rightarrow> ptype p \<noteq> King \<or> col pos = 4
                    | _ \<Rightarrow> True) allSquares"
  by code_simp

lemma init_inv: "epEmpty createInitialState" "kingsHome createInitialState"
proof -
  show "epEmpty createInitialState" by (simp add: epEmpty_def createInitialState_def)
  show "kingsHome createInitialState"
    unfolding kingsHome_def
  proof (intro allI impI, elim conjE)
    fix r c p
    assume at: "sqAt (board createInitialState) r c = Some (Some p)" and king: "ptype p = King"
    then have at': "sqAt createInitialBoard r c = Some (Some p)"
      by (simp add: createInitialState_def)
    from init_kings
    have "\<forall>pos \<in> set allSquares.
            case sqAt createInitialBoard (row pos) (col pos) of
              Some (Some p) \<Rightarrow> ptype p \<noteq> King \<or> col pos = 4 | _ \<Rightarrow> True"
      by (simp only: list_all_iff)
    from bspec[OF this inBounds_allSquares[OF init_sq_inBounds[OF at']]]
    have "case sqAt createInitialBoard r c of
              Some (Some p) \<Rightarrow> ptype p \<noteq> King \<or> c = 4 | _ \<Rightarrow> True"
      by (simp only: Position.select_convs)
    then show "c = 4" unfolding at' using king by simp
  qed
qed

lemma find_unique:
  assumes "m \<in> set ms" and "P m" and "\<And>l. l \<in> set ms \<Longrightarrow> P l \<Longrightarrow> l = m"
  shows "find P ms = Some m"
  using assms
proof (induction ms)
  case Nil
  then show ?case by simp
next
  case (Cons a ms)
  show ?case
  proof (cases "P a")
    case True
    have "a = m" by (rule Cons.prems(3)) (simp_all add: True)
    with True show ?thesis by simp
  next
    case False
    have "find P ms = Some m"
    proof (rule Cons.IH)
      from Cons.prems(1,2) False show "m \<in> set ms" by auto
      show "P m" by (rule Cons.prems(2))
      fix l assume "l \<in> set ms" "P l"
      then show "l = m" by (intro Cons.prems(3)) simp_all
    qed
    with False show ?thesis by simp
  qed
qed

lemma typeCode_inj: "typeCode a = typeCode b \<Longrightarrow> a = b"
  by (cases a; cases b) (simp_all add: typeCode_def)

lemma truthy_typeCode: "truthy (map_option typeCode x) \<longleftrightarrow> x \<noteq> None"
  by (cases x) (auto simp: truthy_def typeCode_def split: PieceType.splits)

lemma position_eq: "(row (a :: Position) = row b \<and> col a = col b) \<longleftrightarrow> a = b"
  by (cases a, cases b) auto

lemma moveData_sel:
  "row (md_to (moveData m)) = row (to_pos m)" "col (md_to (moveData m)) = col (to_pos m)"
  "md_promotion (moveData m) = map_option typeCode (promotion m)"
  "row (md_from (moveData m)) = row (from_pos m)" "col (md_from (moveData m)) = col (from_pos m)"
  by (simp_all add: moveData_def)

lemma typeCode_map_eq:
  "map_option typeCode x = map_option typeCode y \<longleftrightarrow> x = y"
  by (cases x; cases y) (auto dest: typeCode_inj)

lemma matchesData_moveData:
  "matchesData (moveData m) l \<longleftrightarrow>
     to_pos l = to_pos m \<and> (promotion m = None \<or> promotion l = promotion m)"
  unfolding matchesData_def moveData_sel truthy_typeCode typeCode_map_eq
  using position_eq[of "to_pos l" "to_pos m"] by auto

lemma replay_step:
  assumes ep: "epEmpty s" and kh: "kingsHome s"
    and legal: "getLegalMoves s origin = Some ms" and mem: "m \<in> set ms"
  shows "from_pos m = origin" and "find (matchesData (moveData m)) ms = Some m"
    and "makeMove s m = Some s' \<Longrightarrow> epEmpty s' \<and> kingsHome s'"
proof -
  from legal obtain raw where raw: "getRawMoves s origin = Some raw"
    and fil: "filterM (leavesKingSafe s) raw = Some ms"
    by (auto simp: getLegalMoves_def bind_eq_Some_conv)
  have sub: "l \<in> set raw" if "l \<in> set ms" for l using filterM_set[OF fil that] by simp
  from getRawMoves_shape[OF raw sub[OF mem]] obtain pc where "rawShape s origin pc m" by blast
  then show "from_pos m = origin" by (simp add: rawShape_fields)
  show "find (matchesData (moveData m)) ms = Some m"
  proof (rule find_unique[OF mem])
    show "matchesData (moveData m) m" by (simp add: matchesData_moveData)
  next
    fix l assume l: "l \<in> set ms" and ml: "matchesData (moveData m) l"
    from ml have "to_pos l = to_pos m" "promotion m = None \<or> promotion l = promotion m"
      by (simp_all add: matchesData_moveData)
    then show "l = m" by (rule raw_unique[OF ep kh raw sub[OF l] sub[OF mem]])
  qed
  show "makeMove s m = Some s' \<Longrightarrow> epEmpty s' \<and> kingsHome s'"
    using inv_step[OF ep kh raw sub[OF mem]] by simp
qed

lemma replay_follows_play:
  assumes "playLegal s choices = Some s'" "epEmpty s" "kingsHome s"
  shows "replayFrom s (map (\<lambda>ch. moveData (snd ch)) choices) = Some s' \<and>
         moveHistory s' = moveHistory s @ map snd choices"
  using assms
proof (induction choices arbitrary: s)
  case Nil
  then show ?case by simp
next
  case (Cons ch rest)
  obtain origin m where ch: "ch = (origin, m)" by (cases ch)
  from Cons.prems(1) have "playLegal s ((origin, m) # rest) = Some s'" by (simp add: ch)
  then obtain ms where legal: "getLegalMoves s origin = Some ms"
    and cont: "(if m \<in> set ms then do { s1 \<leftarrow> makeMove s m; playLegal s1 rest } else None)
                 = Some s'"
    by (simp add: bind_eq_Some_conv) blast
  from cont have mem: "m \<in> set ms" by (cases "m \<in> set ms") simp_all
  with cont obtain s1 where mk: "makeMove s m = Some s1"
    and rest: "playLegal s1 rest = Some s'"
    by (simp add: bind_eq_Some_conv) blast
  note st = replay_step[OF Cons.prems(2,3) legal mem]
  from st(3)[OF mk] have inv1: "epEmpty s1" "kingsHome s1" by simp_all
  from Cons.IH[OF rest inv1]
  have ih: "replayFrom s1 (map (\<lambda>ch. moveData (snd ch)) rest) = Some s'"
    and hist: "moveHistory s' = moveHistory s1 @ map snd rest" by simp_all
  have org: "\<lparr>row = row (md_from (moveData m)), col = col (md_from (moveData m))\<rparr> = origin"
    using st(1) by (simp add: moveData_def)
  have "replayFrom s (moveData m # map (\<lambda>ch. moveData (snd ch)) rest) = Some s'"
    unfolding replayFrom.simps org legal by (simp add: st(2) mk ih)
  moreover from hist makeMove_fields(7)[OF mk]
  have "moveHistory s' = moveHistory s @ m # map snd rest" by simp
  ultimately show ?case by (simp add: ch)
qed

lemma italianGame_run:
  "map_option (\<lambda>s. (length (moveHistory s), turn s, sqAt (board s) 7 5, status s))
     (playLegal createInitialState italianGame)
   = Some (7, Black, Some (Some \<lparr>ptype = Rook, color = White\<rparr>), Active)"
  by code_simp

section \<open>The claims\<close>

text \<open>
  C3. For every game state and every origin square, every move that \<open>getLegalMoves\<close>
  returns is a move of the side to move, \<open>applyMoveToBoard\<close> applies it without failing,
  and on the resulting board \<open>isInCheck\<close> of the mover's colour is false: the mover's own
  king is not attacked.
\<close>

theorem legal_moves_leave_own_king_unattacked:
  assumes "getLegalMoves s origin = Some ms" and "m \<in> set ms"
  shows "\<exists>newBoard. applyMoveToBoard (board s) m = Some newBoard \<and>
           color (piece m) = turn s \<and> isInCheck newBoard (color (piece m)) = Some False"
proof -
  from assms(1) obtain raw where raw: "getRawMoves s origin = Some raw"
    and fil: "filterM (leavesKingSafe s) raw = Some ms"
    by (auto simp: getLegalMoves_def bind_eq_Some_conv)
  from filterM_set[OF fil assms(2)] have m: "m \<in> set raw" and safe: "leavesKingSafe s m = Some True"
    by simp_all
  from getRawMoves_shape[OF raw m] obtain pc where "color pc = turn s" "rawShape s origin pc m"
    by blast
  then have "color (piece m) = turn s" by (auto dest: rawShape_fields)
  with leavesKingSafe_True[OF safe] show ?thesis by auto
qed

text \<open>The theorem at the initial position, for the double step of the e-pawn.\<close>

theorem legal_moves_leave_own_king_unattacked_witness:
  "getLegalMoves createInitialState \<lparr>row = 6, col = 4\<rparr> =
     Some [baseMove \<lparr>row = 6, col = 4\<rparr> \<lparr>ptype = Pawn, color = White\<rparr> \<lparr>row = 5, col = 4\<rparr> None,
           baseMove \<lparr>row = 6, col = 4\<rparr> \<lparr>ptype = Pawn, color = White\<rparr> \<lparr>row = 4, col = 4\<rparr> None] \<and>
   (\<exists>newBoard.
      applyMoveToBoard (board createInitialState)
        (baseMove \<lparr>row = 6, col = 4\<rparr> \<lparr>ptype = Pawn, color = White\<rparr> \<lparr>row = 4, col = 4\<rparr> None)
        = Some newBoard \<and>
      isInCheck newBoard White = Some False)"
proof -
  let ?e3 = "baseMove \<lparr>row = 6, col = 4\<rparr> \<lparr>ptype = Pawn, color = White\<rparr> \<lparr>row = 5, col = 4\<rparr> None"
  let ?e4 = "baseMove \<lparr>row = 6, col = 4\<rparr> \<lparr>ptype = Pawn, color = White\<rparr> \<lparr>row = 4, col = 4\<rparr> None"
  have mem: "?e4 \<in> set [?e3, ?e4]" by simp
  have "color (piece ?e4) = White" by (simp add: baseMove_def)
  with legal_moves_leave_own_king_unattacked [OF e2_legal mem] e2_legal
  show ?thesis by auto
qed

text \<open>
  C9. On the state returned by \<open>createInitialState\<close>, \<open>getAllLegalMoves\<close> returns exactly
  20 moves, and after each of them \<open>isInCheck\<close> of White is false on the resulting board.
\<close>

theorem initial_position_has_20_safe_moves:
  "map_option length (getAllLegalMoves createInitialState) = Some 20 \<and>
   map_option
     (map (\<lambda>m. applyMoveToBoard (board createInitialState) m \<bind> (\<lambda>nb. isInCheck nb White)))
     (getAllLegalMoves createInitialState) = Some (replicate 20 (Some False))"
  by code_simp

text \<open>
  C10, as amended. On every board of at least eight rows \<open>isInCheck\<close> returns a boolean:
  no read fails. When the board holds no king of the queried colour, \<open>findKing\<close> returns
  the sentinel \<open>(-1, -1)\<close> and the result is that of \<open>isSquareAttacked\<close> at the sentinel;
  it is false when the opponent has no pawn or king on \<open>(0, 0)\<close>, no knight on \<open>(0, 1)\<close> or
  \<open>(1, 0)\<close> and no bishop or queen on the diagonal squares \<open>(i, i)\<close>.
\<close>
theorem isInCheck_total_with_sentinel:
  assumes "8 \<le> length b"
  shows "(\<exists>v. isInCheck b c = Some v) \<and>
         (noKing b c \<longrightarrow>
            findKing b c = Some \<lparr>row = - 1, col = - 1\<rparr> \<and>
            isInCheck b c = isSquareAttacked b \<lparr>row = - 1, col = - 1\<rparr> (opponent c) \<and>
            (sentinelSafe b (opponent c) \<longrightarrow> isInCheck b c = Some False))"
proof -
  have "findKing b c = Some \<lparr>row = - 1, col = - 1\<rparr>" if "noKing b c"
    using that findKingIn_none[OF assms, of allSquares c] allSquares_inBounds
    by (simp add: findKing_def noKing_def)
  moreover have "isSquareAttacked b \<lparr>row = - 1, col = - 1\<rparr> (opponent c) = Some False"
    if "sentinelSafe b (opponent c)"
    using sentinel_not_attacked[OF assms that] by simp
  ultimately show ?thesis using isInCheck_total[OF assms, of c]
    by (auto simp: isInCheck_def)
qed

text \<open>The theorem on the initial board without the black king.\<close>

theorem isInCheck_total_with_sentinel_witness:
  "8 \<le> length (createInitialBoard[0 := (createInitialBoard ! 0)[4 := None]]) \<and>
   noKing (createInitialBoard[0 := (createInitialBoard ! 0)[4 := None]]) Black \<and>
   sentinelSafe (createInitialBoard[0 := (createInitialBoard ! 0)[4 := None]]) (opponent Black) \<and>
   isInCheck (createInitialBoard[0 := (createInitialBoard ! 0)[4 := None]]) Black = Some False"
proof -
  let ?b = "createInitialBoard[0 := (createInitialBoard ! 0)[4 := None]]"
  have len: "8 \<le> length ?b" by code_simp
  have nk: "noKing ?b Black" by code_simp
  have safe: "sentinelSafe ?b (opponent Black)" by code_simp
  from isInCheck_total_with_sentinel[OF len, of Black] nk safe
  have "isInCheck ?b Black = Some False" by blast
  with len nk safe show ?thesis by blast
qed

text \<open>
  The claim as stated fails: the sentinel is a neighbour of the corner \<open>(0, 0)\<close>. On the
  initial board without the white king, the knight probe from \<open>(-1, -1)\<close> reaches the
  black knight on \<open>(0, 1)\<close> and \<open>isInCheck\<close> of White is true.
\<close>

theorem isInCheck_sentinel_counterexample:
  "noKing (createInitialBoard[7 := (createInitialBoard ! 7)[4 := None]]) White \<and>
   findKing (createInitialBoard[7 := (createInitialBoard ! 7)[4 := None]]) White
     = Some \<lparr>row = - 1, col = - 1\<rparr> \<and>
   isInCheck (createInitialBoard[7 := (createInitialBoard ! 7)[4 := None]]) White = Some True"
  by code_simp

text \<open>
  C7. Castling rights never grow under \<open>makeMove\<close>: each of the four rights of the state
  after a move implies the same right of the state before it, for one move and for every
  sequence of moves. A rook that leaves its home square and comes back does not get the
  right back.
\<close>

theorem castling_rights_never_restored:
  "(makeMove s m = Some s' \<longrightarrow> rightsLe (castlingRights s') (castlingRights s)) \<and>
   (makeMoves s ms = Some s'' \<longrightarrow> rightsLe (castlingRights s'') (castlingRights s))"
proof -
  have "rightsLe (castlingRights s') (castlingRights s)" if "makeMove s m = Some s'"
    using makeMove_fields(3)[OF that] by (simp add: newCastling_le)
  then show ?thesis using makeMoves_rights by blast
qed

text \<open>
  The theorem on the initial state: after h2-h4, and after the whole rook tour, where the
  rook is back on its home square and the white kingside right stays lost.
\<close>

theorem castling_rights_never_restored_witness:
  "\<exists>s1 s5. makeMove createInitialState (hd rookTour) = Some s1 \<and>
      makeMoves createInitialState rookTour = Some s5 \<and>
      rightsLe (castlingRights s1) (castlingRights createInitialState) \<and>
      rightsLe (castlingRights s5) (castlingRights createInitialState) \<and>
      sqAt (board s5) 7 7 = Some (Some \<lparr>ptype = Rook, color = White\<rparr>) \<and>
      \<not> ks (cw (castlingRights s5))"
proof -
  from rookTour_run obtain s5 where s5: "makeMoves createInitialState rookTour = Some s5"
    and b: "sqAt (board s5) 7 7 = Some (Some \<lparr>ptype = Rook, color = White\<rparr>)"
    and c: "castlingRights s5 = \<lparr>cw = \<lparr>ks = False, qs = True\<rparr>, cb = \<lparr>ks = True, qs = True\<rparr>\<rparr>"
    by auto
  from s5 obtain s1 where s1: "makeMove createInitialState (hd rookTour) = Some s1"
    by (auto simp: rookTour_def bind_eq_Some_conv)
  from castling_rights_never_restored[of createInitialState "hd rookTour" s1 rookTour s5] s1 s5
  have "rightsLe (castlingRights s1) (castlingRights createInitialState)"
    and "rightsLe (castlingRights s5) (castlingRights createInitialState)" by blast+
  with s1 s5 b c show ?thesis by auto
qed

text \<open>
  C8. \<open>makeMove\<close> sets the half-move clock to 0 when the moved piece is a pawn or the move
  has a captured piece, and to the old clock plus one otherwise; whenever the new clock is
  at least 100 and the side to move has a legal move, the new status is \<open>Draw\<close>.
\<close>

theorem half_move_clock_and_draw:
  assumes "makeMove s m = Some s'"
  shows "halfMoveClock s' =
           (if ptype (piece m) = Pawn \<or> captured m \<noteq> None then 0 else halfMoveClock s + 1) \<and>
         (\<forall>ms. 100 \<le> halfMoveClock s' \<and> getAllLegalMoves s' = Some ms \<and> ms \<noteq> []
               \<longrightarrow> status s' = Draw)"
  using makeMove_fields(5)[OF assms] makeMove_draw[OF assms] by blast

text \<open>The theorem on the initial position with the clock at 99, for the move Ng1-f3.\<close>

theorem half_move_clock_and_draw_witness:
  "\<exists>s'. makeMove (createInitialState\<lparr>halfMoveClock := 99\<rparr>)
        (baseMove \<lparr>row = 7, col = 6\<rparr> \<lparr>ptype = Knight, color = White\<rparr> \<lparr>row = 5, col = 5\<rparr> None)
        = Some s' \<and> halfMoveClock s' = 100 \<and>
        map_option length (getAllLegalMoves s') = Some 20 \<and> status s' = Draw"
proof -
  let ?s = "createInitialState\<lparr>halfMoveClock := 99\<rparr>"
  let ?m = "baseMove \<lparr>row = 7, col = 6\<rparr> \<lparr>ptype = Knight, color = White\<rparr> \<lparr>row = 5, col = 5\<rparr> None"
  from knight_at_99 obtain s' where s': "makeMove ?s ?m = Some s'"
    and n: "map_option length (getAllLegalMoves s') = Some 20" by auto
  then obtain ms where ms: "getAllLegalMoves s' = Some ms" "ms \<noteq> []" by fastforce
  from half_move_clock_and_draw[OF s'] have clock: "halfMoveClock s' = 100"
    and d: "\<forall>ms. 100 \<le> halfMoveClock s' \<and> getAllLegalMoves s' = Some ms \<and> ms \<noteq> [] \<longrightarrow> status s' = Draw"
    by (simp_all add: baseMove_def createInitialState_def)
  from d clock ms have "status s' = Draw" by simp
  with s' clock n show ?thesis by blast
qed







text \<open>
  C6, as amended. The limiter counts per fixed window: the call that opens a window for a
  participant and all the participant's later calls up to 60 seconds after it pass the
  limiter at most 30 times, whatever other participants do in between. A request stopped
  by the limiter is answered 429 and leaves the whole server state unchanged: the games,
  the profiles and the limiter's own table.
\<close>

theorem rate_limit_per_fixed_window:
  "(opensWindow start uid m \<and> (\<forall>(t, u) \<in> set cs. u = uid \<longrightarrow> t \<le> start + RATE_WINDOW) \<longrightarrow>
      acceptedIn m ((start, uid) # cs) uid lo hi \<le> 30) \<and>
   (\<not> isOptions rq \<and> authHeader rq \<noteq> None \<and> tokenUser rq = Some user \<and>
    \<not> fst (checkRateLimit (now rq) user (rateLimitMap st)) \<longrightarrow>
      handler st rq = (Failure 429 ''Rate limited'', st))"
proof (intro conjI impI)
  assume "opensWindow start uid m \<and> (\<forall>(t, u) \<in> set cs. u = uid \<longrightarrow> t \<le> start + RATE_WINDOW)"
  then show "acceptedIn m ((start, uid) # cs) uid lo hi \<le> 30"
    using fixed_window_bound[of start uid m cs lo hi] by simp
next
  assume "\<not> isOptions rq \<and> authHeader rq \<noteq> None \<and> tokenUser rq = Some user \<and>
    \<not> fst (checkRateLimit (now rq) user (rateLimitMap st))"
  then show "handler st rq = (Failure 429 ''Rate limited'', st)"
    using handler_rate_limited[of rq user st] by simp
qed

text \<open>The theorem for 41 calls in one window, and for alice on the server that has counted
  her 30 calls.\<close>

theorem rate_limit_per_fixed_window_witness:
  "opensWindow 0 ''u'' Map.empty \<and>
   acceptedIn Map.empty ((0, ''u'') # replicate 40 (1, ''u'')) ''u'' 0 RATE_WINDOW = 30 \<and>
   acceptedIn Map.empty ((0, ''u'') # replicate 40 (1, ''u'')) ''u'' 0 RATE_WINDOW \<le> 30 \<and>
   \<not> fst (checkRateLimit (now (demoRequest cornerMove None)) ''alice'' (rateLimitMap limitedServer)) \<and>
   handler limitedServer (demoRequest cornerMove None) = (Failure 429 ''Rate limited'', limitedServer)"
proof -
  have o: "opensWindow 0 ''u'' Map.empty" by (simp add: opensWindow_def)
  have w: "\<forall>(t, u) \<in> set (replicate 40 (1::int, ''u'')). u = ''u'' \<longrightarrow> t \<le> 0 + RATE_WINDOW"
    by (simp add: RATE_WINDOW_def)
  have r: "\<not> isOptions (demoRequest cornerMove None)"
    "authHeader (demoRequest cornerMove None) \<noteq> None"
    "tokenUser (demoRequest cornerMove None) = Some ''alice''"
    by (simp_all add: demoRequest_def)
  have l: "\<not> fst (checkRateLimit (now (demoRequest cornerMove None)) ''alice'' (rateLimitMap limitedServer))"
    by (simp add: demoRequest_def limitedServer_def checkRateLimit_def RATE_LIMIT_def)
  note T = rate_limit_per_fixed_window[where start = 0 and uid = "''u''" and m = Map.empty
      and cs = "replicate 40 (1, ''u'')" and lo = 0 and hi = RATE_WINDOW
      and rq = "demoRequest cornerMove None" and user = "''alice''" and st = limitedServer]
  have A: "acceptedIn Map.empty ((0, ''u'') # replicate 40 (1, ''u'')) ''u'' 0 RATE_WINDOW \<le> 30"
    by (rule T[THEN conjunct1, THEN mp]) (intro conjI o w)
  have B: "handler limitedServer (demoRequest cornerMove None) = (Failure 429 ''Rate limited'', limitedServer)"
    by (rule T[THEN conjunct2, THEN mp]) (intro conjI r l)
  show ?thesis by (intro conjI o forty_calls A l B)
qed

text \<open>
  The claim as stated fails for rolling windows. One call at time 0, then one call per
  second from 31000 to 59000 and from 60001 to 89001: the window opened at 0 ends at 60000
  and a new one opens at 60001, so all 60 calls pass and 59 of them lie in the 60 seconds
  from 31000.
\<close>

theorem rolling_window_counterexample:
  "acceptedIn Map.empty
     ((0, ''u'') # map (\<lambda>i. (31000 + 1000 * i, ''u'')) [0 .. 28] @
        map (\<lambda>i. (60001 + 1000 * i, ''u'')) [0 .. 29])
     ''u'' 31000 (31000 + RATE_WINDOW) = 59"
  by code_simp


text \<open>
  C2. Every state reached from \<open>createInitialState\<close> by moves drawn from \<open>getLegalMoves\<close> and
  applied with \<open>makeMove\<close> is reproduced by \<open>replayMoves\<close> on the wire form of its move
  history: the replay returns, and it returns the state itself, so board, turn, castling
  rights and clocks agree.
\<close>

theorem replay_reproduces_reachable_state:
  assumes "playLegal createInitialState choices = Some s"
  shows "replayMoves (map moveData (moveHistory s)) = Some s"
proof -
  from replay_follows_play[OF assms init_inv]
  have "replayFrom createInitialState (map (\<lambda>ch. moveData (snd ch)) choices) = Some s"
    and "moveHistory s = map snd choices"
    by (simp_all add: createInitialState_def)
  then show ?thesis by (simp add: replayMoves_def comp_def)
qed

text \<open>The theorem on the game e4 e5, Nf3 Nc6, Bc4 Bc5, O-O.\<close>

theorem replay_reproduces_reachable_state_witness:
  "\<exists>s. playLegal createInitialState italianGame = Some s \<and>
        length (moveHistory s) = 7 \<and>
        replayMoves (map moveData (moveHistory s)) = Some s"
proof -
  from italianGame_run obtain s where s: "playLegal createInitialState italianGame = Some s"
    and n: "length (moveHistory s) = 7" by auto
  from replay_reproduces_reachable_state[OF s] s n show ?thesis by blast
qed

end
